theory Spec2Isabelle
  imports Complex_Main "HOL-Library.Product_Lexorder" "HOL-Library.Sublist"
begin

section \<open>Python values, strings and numbers\<close>

text \<open>
  A Python number: an int, a float or a bool (in arithmetic and comparisons \<^verbatim>\<open>True\<close> and
  \<^verbatim>\<open>False\<close> are the integers 1 and 0). Python compares numbers of different types exactly,
  so a float is modelled by the real number it denotes; the floats \<^verbatim>\<open>inf\<close> and \<^verbatim>\<open>nan\<close> are
  outside the model.
\<close>

datatype pynum = IntV int | FloatV real | BoolV bool

fun num_val :: "pynum \<Rightarrow> real" where
  "num_val (IntV i) = of_int i"
| "num_val (FloatV x) = x"
| "num_val (BoolV b) = (if b then 1 else 0)"

text \<open>\<^verbatim>\<open>threshold <= current_value\<close>\<close>

definition le_num :: "pynum \<Rightarrow> pynum \<Rightarrow> bool" where
  "le_num t v = (num_val t \<le> num_val v)"

text \<open>The comparisons \<^verbatim>\<open><=\<close> and \<^verbatim>\<open><\<close> of Python on numbers, as the order of the type.\<close>

instantiation pynum :: ord
begin

definition less_eq_pynum :: "pynum \<Rightarrow> pynum \<Rightarrow> bool" where
  "less_eq_pynum a b = (num_val a \<le> num_val b)"

definition less_pynum :: "pynum \<Rightarrow> pynum \<Rightarrow> bool" where
  "less_pynum a b = (num_val a < num_val b)"

instance ..

end

text \<open>
  The arguments of \<^verbatim>\<open>add_alarm\<close> and \<^verbatim>\<open>remove_alarm\<close> are dynamically typed, and \<^verbatim>\<open>add_alarm\<close>
  itself inspects the type of its second argument (\<^verbatim>\<open>isinstance(threshold, str)\<close>): a value
  is \<^verbatim>\<open>None\<close>, a bool, an int, a float or a string.
\<close>

datatype pyval = PNone | PBool bool | PInt int | PFloat real | PStr string

text \<open>The number a value is, if it is one.\<close>

fun to_num :: "pyval \<Rightarrow> pynum option" where
  "to_num (PBool b) = Some (BoolV b)"
| "to_num (PInt i) = Some (IntV i)"
| "to_num (PFloat x) = Some (FloatV x)"
| "to_num v = None"

text \<open>The string a value is; used only where the value is known to be a string.\<close>

fun the_str :: "pyval \<Rightarrow> string" where
  "the_str (PStr s) = s"
| "the_str v = []"

text \<open>\<^verbatim>\<open>str.upper()\<close>, on the ASCII letters.\<close>

definition upper_char :: "char \<Rightarrow> char" where
  "upper_char c =
     (case map_of (zip ''abcdefghijklmnopqrstuvwxyz'' ''ABCDEFGHIJKLMNOPQRSTUVWXYZ'') c of
        Some u \<Rightarrow> u
      | None \<Rightarrow> c)"

definition upper :: "string \<Rightarrow> string" where
  "upper s = map upper_char s"

text \<open>\<^verbatim>\<open>str(n)\<close> for an integer, as the f-strings of the source render it.\<close>

fun digits :: "nat \<Rightarrow> string" where
  "digits n =
     (if n < 10 then [''0123456789'' ! n]
      else digits (n div 10) @ [''0123456789'' ! (n mod 10)])"

definition str_int :: "int \<Rightarrow> string" where
  "str_int i = (if i < 0 then CHR ''-'' # digits (nat (- i)) else digits (nat i))"

text \<open>
  \<^verbatim>\<open>str(v)\<close> of a value placed in an f-string. The decimal text that Python prints for a
  float is a fixed function of the float which the model does not compute: it is the
  parameter \<open>fs\<close>, which the functions below read from the state.
\<close>

fun str_num :: "(real \<Rightarrow> string) \<Rightarrow> pynum \<Rightarrow> string" where
  "str_num fs (IntV i) = str_int i"
| "str_num fs (FloatV x) = fs x"
| "str_num fs (BoolV b) = (if b then ''True'' else ''False'')"

fun str_val :: "(real \<Rightarrow> string) \<Rightarrow> pyval \<Rightarrow> string" where
  "str_val fs PNone = ''None''"
| "str_val fs (PBool b) = (if b then ''True'' else ''False'')"
| "str_val fs (PInt i) = str_int i"
| "str_val fs (PFloat x) = fs x"
| "str_val fs (PStr s) = s"

text \<open>Truthiness of a value (\<^verbatim>\<open>name if name else ...\<close>).\<close>

fun truthy :: "pyval \<Rightarrow> bool" where
  "truthy PNone = False"
| "truthy (PBool b) = b"
| "truthy (PInt i) = (i \<noteq> 0)"
| "truthy (PFloat x) = (x \<noteq> 0)"
| "truthy (PStr s) = (s \<noteq> [])"

section \<open>Data model\<close>

definition AVAILABLE_RESOURCES :: "string list" where
  "AVAILABLE_RESOURCES = [''cpu'', ''ram'', ''disk'', ''logs'']"

text \<open>
  An alarm is the dictionary built by \<^verbatim>\<open>add_alarm\<close> (or loaded from \<^verbatim>\<open>alarms.json\<close>). Its
  threshold is the number that passed the checks of \<^verbatim>\<open>add_alarm\<close>, which is an int for every
  caller in the repository but may be a float or a bool. The key \<^verbatim>\<open>active_period\<close> may be
  absent in a loaded alarm; every reader uses \<^verbatim>\<open>.get('active_period', 'always')\<close>.
\<close>

record alarm =
  alarm_id :: string
  name :: pyval
  resource :: string
  threshold :: pynum
  active_period :: "string option"

text \<open>
  The triggered alarm is \<^verbatim>\<open>alarm.copy()\<close> extended with the keys \<^verbatim>\<open>current_value\<close> and
  \<^verbatim>\<open>triggered_at\<close>.
\<close>

record triggered =
  rule :: alarm
  current_value :: pynum
  triggered_at :: string

text \<open>
  The log file is the list of its lines, as \<^verbatim>\<open>readlines()\<close> gives them (without the line
  ends; the timestamp that starts each entry is left out).
\<close>

type_synonym log_line = string

text \<open>
  The state: the fields of \<^verbatim>\<open>AlarmManager\<close> that the claims are about, and the two files and
  the mail transport it writes to. \<open>log_writable\<close> says whether appending to the log file
  succeeds; \<open>alarms_write_error\<close> is the class name of the exception that opening
  \<^verbatim>\<open>alarms.json\<close> for writing raises, if it raises. A failed write leaves the file as it was.
  \<open>float_str\<close> is the text Python prints for a float; it is read and never changed.
\<close>

record state =
  alarms :: "alarm list"
  triggered_alarm :: "triggered option"
  alarms_file :: "alarm list"
  log_file :: "log_line list"
  log_writable :: bool
  alarms_write_error :: "string option"
  outbox :: "(string \<times> string) list"
  float_str :: "real \<Rightarrow> string"

section \<open>Logging (core_features.py)\<close>

text \<open>\<^verbatim>\<open>message.replace(' ', '_')\<close>\<close>

definition underscored :: "string \<Rightarrow> string" where
  "underscored m = map (\<lambda>c. if c = CHR '' '' then CHR ''_'' else c) m"

text \<open>
  The lines of a text as a file opened in text mode gives them back: a line ends at a line
  feed, at a carriage return, or at a carriage return followed by a line feed. \<open>cur\<close> is
  the line read so far and \<open>cr\<close> says that the character just read was a carriage return.
\<close>

fun lines_of :: "bool \<Rightarrow> string \<Rightarrow> string \<Rightarrow> string list" where
  "lines_of cr cur [] = (if cur = [] then [] else [cur])"
| "lines_of cr cur (c # cs) =
     (if c = CHR 0x0A then (if cr then lines_of False [] cs else cur # lines_of False [] cs)
      else if c = CHR 0x0D then cur # lines_of True [] cs
      else lines_of False (cur @ [c]) cs)"

text \<open>
  The lines that an entry takes in the file: \<^verbatim>\<open>log_event\<close> writes the text
  \<^verbatim>\<open>[timestamp] [CATEGORY] message\<close> and a line feed, with the category in upper case and
  the blanks of the message replaced. The message is written as it is otherwise, so an entry
  whose message holds line ends takes several lines of the file.
\<close>

definition log_entry :: "string \<Rightarrow> string \<Rightarrow> log_line list" where
  "log_entry category message =
     lines_of False [] (''['' @ upper category @ ''] '' @ underscored message @ [CHR 0x0A])"

text \<open>
  \<^verbatim>\<open>log_event(message, category)\<close> appends the entry to the file. An exception while
  writing is caught (and only printed), so the call never raises.
\<close>

definition log_event :: "string \<Rightarrow> string \<Rightarrow> state \<Rightarrow> state" where
  "log_event message category s =
     (if log_writable s
      then s\<lparr>log_file := log_file s @ log_entry category message\<rparr>
      else s)"

section \<open>Active periods (AlarmManager._is_alarm_active)\<close>

text \<open>The hour is \<^verbatim>\<open>datetime.now().hour\<close>, passed in.\<close>

definition is_alarm_active :: "nat \<Rightarrow> alarm \<Rightarrow> bool" where
  "is_alarm_active hour a =
     (let period = (case active_period a of None \<Rightarrow> ''always'' | Some p \<Rightarrow> p) in
      if period = ''always'' then True
      else if period = ''day'' then 6 \<le> hour \<and> hour \<le> 21
      else if period = ''night'' then hour < 6 \<or> hour > 21
      else if period = ''office'' then 9 \<le> hour \<and> hour \<le> 17
      else if period = ''non-office'' then \<not> (9 \<le> hour \<and> hour \<le> 17)
      else True)"

section \<open>Sampling (core_features.get_system_usage)\<close>

text \<open>
  The dictionary returned by \<^verbatim>\<open>get_system_usage\<close>; the monitor thread adds the key
  \<^verbatim>\<open>logs_percent\<close> to it.
\<close>

record usage =
  cpu_percent :: real
  ram_percent :: real
  ram_total_gb :: real
  ram_used_gb :: real
  disk_percent :: real
  disk_total_gb :: real
  disk_used_gb :: real
  logs_percent :: "pynum option"

definition zero_usage :: usage where
  "zero_usage =
     \<lparr>cpu_percent = 0, ram_percent = 0, ram_total_gb = 0, ram_used_gb = 0,
      disk_percent = 0, disk_total_gb = 0, disk_used_gb = 0, logs_percent = None\<rparr>"

text \<open>
  The psutil calls either give the readings or raise (\<open>Inl\<close>, with the text of the
  exception). On an exception the function logs it and returns zero values; it never
  raises.
\<close>

definition get_system_usage :: "string + usage \<Rightarrow> state \<Rightarrow> usage \<times> state" where
  "get_system_usage psutil s =
     (case psutil of
        Inr u \<Rightarrow> (u\<lparr>logs_percent := None\<rparr>, s)
      | Inl e \<Rightarrow> (zero_usage, log_event (''Failed_to_retrieve_system_metrics:_'' @ e) ''ERROR'' s))"

text \<open>\<^verbatim>\<open>usage_data.get(f'{resource}_percent', 0)\<close>\<close>

definition usage_get :: "usage \<Rightarrow> string \<Rightarrow> pynum" where
  "usage_get u r =
     (if r = ''cpu'' then FloatV (cpu_percent u)
      else if r = ''ram'' then FloatV (ram_percent u)
      else if r = ''disk'' then FloatV (disk_percent u)
      else if r = ''logs'' then (case logs_percent u of Some v \<Rightarrow> v | None \<Rightarrow> IntV 0)
      else IntV 0)"

section \<open>The environment of one pass\<close>

text \<open>What \<^verbatim>\<open>send_alert_email\<close> meets: the port is not a number (the call raises), host or
  recipient is missing, the message is sent, or the SMTP exchange raises.\<close>

datatype mail_outcome = PortError string | NotConfigured | Sent | SendError string

text \<open>
  Everything a pass of the monitor loop reads from outside the manager: the outcome of the
  psutil calls, the wall clock (\<^verbatim>\<open>datetime.now()\<close>: its hour and its ISO text), the
  environment variable \<^verbatim>\<open>ALERT_ON_ANY_ALARM\<close>, the mail transport, and what reading the log
  file meets. \<open>history_error\<close> is the class name of the exception that \<^verbatim>\<open>get_log_history\<close>
  raises, if it raises: the function builds the path of the log file, and with it creates
  a missing log directory, outside its \<^verbatim>\<open>try\<close> block (\<^verbatim>\<open>os.makedirs\<close> raises
  \<^verbatim>\<open>FileExistsError\<close> when another thread has created the directory since the test, or
  \<^verbatim>\<open>PermissionError\<close>). \<open>history_unreadable\<close> says that opening or reading the file raises,
  which the function catches.
\<close>

record env =
  sample :: "string + usage"
  hour :: nat
  now_iso :: string
  alert_any :: bool
  mail :: mail_outcome
  mail_config_error :: "string option"
  history_error :: "string option"
  history_unreadable :: bool

section \<open>Reading the log (core_features.get_log_history)\<close>

text \<open>
  What \<^verbatim>\<open>get_log_history(max_entries=None)\<close> returns, when it returns, with no search text
  and no dates: every line of the log file
  (\<^verbatim>\<open>filtered_lines[-max_entries:] if max_entries else filtered_lines\<close>), or the empty list
  when the file is missing or cannot be read.
\<close>

definition log_lines :: "env \<Rightarrow> state \<Rightarrow> log_line list" where
  "log_lines e s = (if history_unreadable e then [] else log_file s)"

text \<open>The call: the class name of the exception raised (\<open>Inl\<close>), or the lines.\<close>

definition get_log_history :: "env \<Rightarrow> state \<Rightarrow> string + log_line list" where
  "get_log_history e s =
     (case history_error e of Some cls \<Rightarrow> Inl cls | None \<Rightarrow> Inr (log_lines e s))"

section \<open>Notification (core_features.send_alert_email)\<close>

definition send_alert_email :: "env \<Rightarrow> string \<Rightarrow> string \<Rightarrow> state \<Rightarrow> string + (bool \<times> state)" where
  "send_alert_email e subject body s =
     (case mail e of
        PortError x \<Rightarrow> Inl x
      | m \<Rightarrow>
         (let s1 = (case mail_config_error e of
                      Some x \<Rightarrow> log_event (''Failed_to_load_notification_config:_'' @ x) ''ERROR'' s
                    | None \<Rightarrow> s)
          in case m of
               NotConfigured \<Rightarrow>
                 Inr (False, log_event ''Alert_email_not_sent_missing_smtp_configuration'' ''WARNING'' s1)
             | SendError x \<Rightarrow>
                 Inr (False, log_event (''Failed_to_send_alert_email:_'' @ x) ''ERROR'' s1)
             | _ \<Rightarrow>
                 Inr (True, log_event ''Alert_email_sent'' ''INFO''
                              (s1\<lparr>outbox := outbox s1 @ [(subject, body)]\<rparr>))))"

section \<open>The alarm manager (alarm_manager.py)\<close>

text \<open>\<^verbatim>\<open>save_alarms\<close>: overwrite the file, or log the failure; it never raises.\<close>

definition save_alarms :: "alarm list \<Rightarrow> state \<Rightarrow> state" where
  "save_alarms xs s =
     (case alarms_write_error s of
        None \<Rightarrow> s\<lparr>alarms_file := xs\<rparr>
      | Some cls \<Rightarrow> log_event (''Error_saving_alarms:_'' @ cls) ''CRITICAL'' s)"

text \<open>\<^verbatim>\<open>sort_order.get(a['resource'], 99)\<close>\<close>

definition sort_order :: "string \<Rightarrow> nat" where
  "sort_order r =
     (if r = ''cpu'' then 1 else if r = ''ram'' then 2 else if r = ''disk'' then 3 else 99)"

text \<open>
  \<^verbatim>\<open>get_alarms\<close>: \<^verbatim>\<open>sorted\<close> is a stable sort on the key (priority of the resource, then
  threshold, compared as numbers), as \<^const>\<open>sort_key\<close> is.
\<close>

definition get_alarms :: "state \<Rightarrow> alarm list" where
  "get_alarms s = sort_key (\<lambda>a. (sort_order (resource a), num_val (threshold a))) (alarms s)"

definition get_triggered_alarm :: "state \<Rightarrow> triggered option" where
  "get_triggered_alarm s = triggered_alarm s"

text \<open>
  \<^verbatim>\<open>max(xs, key=...)\<close> on a non-empty list \<open>x # xs\<close>: the first element whose key is
  maximal (a later element replaces the best so far only when its key is strictly larger).
\<close>

fun max_by :: "('a \<Rightarrow> pynum) \<Rightarrow> 'a \<Rightarrow> 'a list \<Rightarrow> 'a" where
  "max_by key best [] = best"
| "max_by key best (x # xs) = max_by key (if key best < key x then x else best) xs"

definition quote :: string where
  "quote = [CHR 0x27]"

text \<open>
  \<^verbatim>\<open>_trigger_alarm\<close>: log the event, store the copy of the alarm with the reading and the
  time, and send a mail for a logs alarm (or for any alarm when configured). An exception
  of the mail call is caught and logged. The parameter \<^verbatim>\<open>custom_message\<close> is not used by
  the body.
\<close>

definition trigger_alarm :: "env \<Rightarrow> alarm \<Rightarrow> pynum \<Rightarrow> string option \<Rightarrow> state \<Rightarrow> state" where
  "trigger_alarm e a v custom_message s =
     (let res = upper (resource a);
          thr = threshold a;
          s1 = (if res = ''LOGS''
                then log_event (''Security_Alert_Log_Count_'' @ str_num (float_str s) v
                                  @ ''_Exceeds_'' @ str_num (float_str s) thr) ''SECURITY'' s
                else log_event (res @ ''_usage_alarm_triggered_'' @ str_num (float_str s) thr
                                  @ ''_percent'') ''ALARM'' s);
          s2 = s1\<lparr>triggered_alarm :=
                    Some \<lparr>rule = a, current_value = v, triggered_at = now_iso e\<rparr>\<rparr>
      in if res = ''LOGS'' \<or> alert_any e
         then (let subject = ''ALERT: '' @ res @ '' alarm triggered'';
                   body = ''Alarm '' @ quote @ str_val (float_str s) (name a) @ quote
                          @ '' triggered. Resource: '' @ res
                          @ '', Current value: '' @ str_num (float_str s) v
                          @ '', Threshold: '' @ str_num (float_str s) thr
                          @ '', Time: '' @ now_iso e
               in case send_alert_email e subject body s2 of
                    Inl x \<Rightarrow> log_event (''Failed_to_send_alert_notification:_'' @ x) ''ERROR'' s2
                  | Inr (ok, s3) \<Rightarrow> s3)
         else s2)"

section \<open>The monitor thread (AlarmMonitorThread.run)\<close>

text \<open>
  The body of \<^verbatim>\<open>for resource in AVAILABLE_RESOURCES\<close>, for one resource. The alarms are
  read through \<^verbatim>\<open>get_alarms\<close>; they are selected by resource and threshold, then by active
  period, and the first alarm of maximal threshold is triggered.
\<close>

definition check_resource :: "env \<Rightarrow> usage \<Rightarrow> nat \<Rightarrow> string \<Rightarrow> state \<Rightarrow> state" where
  "check_resource e usage_data log_count r s =
     (let current_value = (if r = ''logs'' then IntV (int log_count) else usage_get usage_data r);
          resource_alarms =
            [a \<leftarrow> get_alarms s. resource a = r \<and> le_num (threshold a) current_value]
      in if resource_alarms \<noteq> []
         then (case filter (is_alarm_active (hour e)) resource_alarms of
                 [] \<Rightarrow> s
               | a # as \<Rightarrow>
                  (let highest_threshold_alarm = max_by threshold a as
                   in if r = ''logs''
                      then trigger_alarm e highest_threshold_alarm current_value
                             (Some (''Log count ('' @ str_num (float_str s) current_value
                                    @ '') exceeds threshold'')) s
                      else trigger_alarm e highest_threshold_alarm current_value None s))
         else s)"

text \<open>
  The \<^verbatim>\<open>try\<close> block from the point where \<^verbatim>\<open>get_log_history\<close> has returned the lines \<open>ls\<close>:
  count them, store the count in the usage dictionary, and check each resource in the order
  of \<^const>\<open>AVAILABLE_RESOURCES\<close>. Nothing in the loop assigns \<^verbatim>\<open>None\<close> to the triggered
  alarm.
\<close>

definition evaluate :: "env \<Rightarrow> usage \<Rightarrow> log_line list \<Rightarrow> state \<Rightarrow> state" where
  "evaluate e u ls s1 =
     (let log_count = length ls;
          usage_data = u\<lparr>logs_percent := Some (IntV (int log_count))\<rparr>
      in fold (check_resource e usage_data log_count) AVAILABLE_RESOURCES s1)"

text \<open>
  The \<^verbatim>\<open>try\<close> block of the loop: sample, read the log, evaluate. The result is the state
  at the end of the block, or the exception that leaves it (\<open>Inl\<close>: the class name, and the
  state at that point). On the alarms of this model the one call of the block that can
  raise is \<^verbatim>\<open>get_log_history\<close>: the sampling, the logging and \<^verbatim>\<open>_trigger_alarm\<close> catch
  their own exceptions, and the comparisons are between numbers.
\<close>

definition try_block :: "env \<Rightarrow> state \<Rightarrow> (string \<times> state) + state" where
  "try_block e s =
     (let (u, s1) = get_system_usage (sample e) s
      in case get_log_history e s1 of
           Inl cls \<Rightarrow> Inl (cls, s1)
         | Inr ls \<Rightarrow> Inr (evaluate e u ls s1))"

text \<open>
  One pass of the \<^verbatim>\<open>while\<close> loop: the \<^verbatim>\<open>try\<close> block and its handler \<^verbatim>\<open>except Exception\<close>,
  which logs the class name of the exception. The handler's \<^verbatim>\<open>time.sleep(1)\<close> and the wait
  between two passes do not change the state. Every pass ends in a state, from which the
  loop goes on.
\<close>

definition run_pass :: "env \<Rightarrow> state \<Rightarrow> state" where
  "run_pass e s =
     (case try_block e s of
        Inl (cls, s1) \<Rightarrow> log_event (''Monitor_Thread_Loop_Error:_'' @ cls) ''CRITICAL'' s1
      | Inr s' \<Rightarrow> s')"

text \<open>
  An evaluation cycle (a tick): a pass in which \<^verbatim>\<open>get_log_history\<close> returns, so that the
  \<^verbatim>\<open>try\<close> block runs to its end. Lemma \<open>run_pass_tick\<close> relates it to \<^const>\<open>run_pass\<close>.
\<close>

definition tick :: "env \<Rightarrow> state \<Rightarrow> state" where
  "tick e s =
     (let (u, s1) = get_system_usage (sample e) s
      in evaluate e u (log_lines e s1) s1)"

section \<open>AlarmManager._check_alarms\<close>

text \<open>
  The method \<^verbatim>\<open>_check_alarms(usage_data)\<close>, which no code of the repository calls: it
  resets the triggered alarm, reads \<^verbatim>\<open>self.alarms\<close> directly and does not look at the
  active period.
\<close>

definition check_alarms_resource :: "env \<Rightarrow> usage \<Rightarrow> string \<Rightarrow> state \<Rightarrow> state" where
  "check_alarms_resource e usage_data r s =
     (let current_value = usage_get usage_data r
      in case [a \<leftarrow> alarms s. resource a = r \<and> le_num (threshold a) current_value] of
           [] \<Rightarrow> s
         | a # as \<Rightarrow> trigger_alarm e (max_by threshold a as) current_value None s)"

definition check_alarms :: "env \<Rightarrow> usage \<Rightarrow> state \<Rightarrow> state" where
  "check_alarms e usage_data s =
     fold (check_alarms_resource e usage_data) AVAILABLE_RESOURCES (s\<lparr>triggered_alarm := None\<rparr>)"


section \<open>Adding and removing alarms\<close>

datatype error = ValueError string | TypeError string

text \<open>\<^verbatim>\<open>x in AVAILABLE_RESOURCES\<close> for a value of any type: only a string can be a member.\<close>

fun in_resources :: "pyval \<Rightarrow> bool" where
  "in_resources (PStr r) = (r \<in> set AVAILABLE_RESOURCES)"
| "in_resources v = False"

fun is_str :: "pyval \<Rightarrow> bool" where
  "is_str (PStr r) = True"
| "is_str v = False"

definition valid_periods :: "string list" where
  "valid_periods = [''day'', ''night'', ''office'', ''non-office'', ''always'']"

fun in_periods :: "pyval \<Rightarrow> bool" where
  "in_periods (PStr p) = (p \<in> set valid_periods)"
| "in_periods v = False"

text \<open>
  The first statement of \<^verbatim>\<open>add_alarm\<close>: when the first argument is no resource and the
  second is a string naming one, the three arguments are taken as (name, resource,
  threshold). The result is the triple (name, resource, threshold) the rest of the
  function works with.
\<close>

definition shift_args :: "pyval \<Rightarrow> pyval \<Rightarrow> pyval \<Rightarrow> pyval \<times> pyval \<times> pyval" where
  "shift_args res thr nm =
     (if \<not> in_resources res \<and> is_str thr \<and> in_resources thr
      then (res, thr, nm)
      else (nm, res, thr))"

fun type_name :: "pyval \<Rightarrow> string" where
  "type_name PNone = ''NoneType''"
| "type_name (PBool b) = ''bool''"
| "type_name (PInt i) = ''int''"
| "type_name (PFloat x) = ''float''"
| "type_name (PStr s) = ''str''"

fun join :: "string \<Rightarrow> string list \<Rightarrow> string" where
  "join sep [] = []"
| "join sep [x] = x"
| "join sep (x # y # ys) = x @ sep @ join sep (y # ys)"

text \<open>The text of a list of strings in an f-string.\<close>

definition repr_list :: "string list \<Rightarrow> string" where
  "repr_list xs = ''['' @ join '', '' (map (\<lambda>x. quote @ x @ quote) xs) @ '']''"

text \<open>
  The threshold check for the resource \<open>r\<close> (\<^verbatim>\<open>threshold <= 0\<close> for logs,
  \<^verbatim>\<open>not 1 <= threshold <= 100\<close> otherwise): the number that passed, or the exception raised
  and whether a warning is logged before it. There is no test of the type: the comparisons
  accept any number, so an int, a float or a bool in range passes. Comparing a string or
  \<^verbatim>\<open>None\<close> with an integer raises \<^verbatim>\<open>TypeError\<close> in the comparison itself, before anything
  is logged.
\<close>

definition check_threshold :: "string \<Rightarrow> pyval \<Rightarrow> (error \<times> bool) + pynum" where
  "check_threshold r thr =
     (case to_num thr of
        Some t \<Rightarrow>
          (if r = ''logs''
           then (if le_num t (IntV 0)
                 then Inl (ValueError ''Threshold for logs must be a positive integer.'', True)
                 else Inr t)
           else (if \<not> (le_num (IntV 1) t \<and> le_num t (IntV 100))
                 then Inl (ValueError ''Threshold must be between 1 and 100.'', True)
                 else Inr t))
      | None \<Rightarrow>
          Inl (TypeError
                 (if r = ''logs''
                  then quote @ ''<='' @ quote @ '' not supported between instances of ''
                       @ quote @ type_name thr @ quote @ '' and '' @ quote @ ''int'' @ quote
                  else quote @ ''<='' @ quote @ '' not supported between instances of ''
                       @ quote @ ''int'' @ quote @ '' and '' @ quote @ type_name thr @ quote),
               False))"

text \<open>
  \<^verbatim>\<open>add_alarm(resource, threshold, name, active_period)\<close>; \<open>uuid4\<close> is the text of the
  identifier that \<^verbatim>\<open>uuid.uuid4()\<close> generates in this call. The result is the exception
  raised or the identifier returned, with the state after the call.
\<close>

definition add_alarm ::
  "string \<Rightarrow> pyval \<Rightarrow> pyval \<Rightarrow> pyval \<Rightarrow> pyval \<Rightarrow> state \<Rightarrow> (error + string) \<times> state" where
  "add_alarm uuid4 res0 thr0 nm0 period s =
     (let (nm, res, thr) = shift_args res0 thr0 nm0;
          fs = float_str s
      in if \<not> in_resources res
         then (Inl (ValueError (''Invalid resource: '' @ str_val fs res @ ''. Must be one of ''
                                 @ repr_list AVAILABLE_RESOURCES)),
               log_event (''Attempted_to_add_invalid_resource:_'' @ str_val fs res) ''WARNING'' s)
         else (let r = the_str res
               in case check_threshold r thr of
                    Inl (err, logged) \<Rightarrow>
                      (Inl err,
                       if logged
                       then log_event (''Attempted_to_add_invalid_threshold:_'' @ str_val fs thr)
                              ''WARNING'' s
                       else s)
                  | Inr t \<Rightarrow>
                      if \<not> in_periods period
                      then (Inl (ValueError (''active_period must be one of ''
                                              @ repr_list valid_periods @ ''.'')),
                            log_event (''Attempted_to_add_invalid_active_period:_''
                                         @ str_val fs period) ''WARNING'' s)
                      else (let new_alarm =
                                  \<lparr>alarm_id = uuid4,
                                   name = (if truthy nm then nm
                                           else PStr (if r \<noteq> ''logs''
                                                      then upper r @ '' alarm '' @ str_num fs t @ ''%''
                                                      else ''LOGS alarm '' @ str_num fs t)),
                                   resource = r,
                                   threshold = t,
                                   active_period = Some (the_str period)\<rparr>;
                                s1 = s\<lparr>alarms := alarms s @ [new_alarm]\<rparr>;
                                s2 = save_alarms (alarms s1) s1;
                                s3 = log_event (''Alarm_added:_'' @ str_val fs (name new_alarm)
                                                @ ''_'' @ r @ ''_'' @ str_num fs t) ''ALARM_CONFIG'' s2
                            in (Inr (alarm_id new_alarm), s3))))"

text \<open>
  \<^verbatim>\<open>remove_alarm(alarm_id)\<close>: every alarm with that identifier is filtered out; the identifier
  passed may be of any type (the identifiers stored are strings).
\<close>

definition remove_alarm :: "pyval \<Rightarrow> state \<Rightarrow> bool \<times> state" where
  "remove_alarm i s =
     (let initial_count = length (alarms s);
          s1 = s\<lparr>alarms := [a \<leftarrow> alarms s. PStr (alarm_id a) \<noteq> i]\<rparr>
      in if length (alarms s1) < initial_count
         then (let s2 = save_alarms (alarms s1) s1;
                   s3 = log_event (''Alarm_removed:_'' @ str_val (float_str s) i) ''ALARM_CONFIG'' s2;
                   s4 = (case triggered_alarm s3 of
                           Some t \<Rightarrow>
                             if PStr (alarm_id (rule t)) = i then s3\<lparr>triggered_alarm := None\<rparr> else s3
                         | None \<Rightarrow> s3)
               in (True, s4))
         else (False, s1))"

section \<open>Readings and breaches\<close>

text \<open>The value a tick compares the thresholds of the resource \<open>r\<close> with.\<close>

definition reading :: "env \<Rightarrow> state \<Rightarrow> string \<Rightarrow> pynum" where
  "reading e s r =
     (let (u, s1) = get_system_usage (sample e) s
      in if r = ''logs'' then IntV (int (length (log_lines e s1))) else usage_get u r)"

text \<open>
  The rules of the store that breach for the resource \<open>r\<close> in a tick: rules for \<open>r\<close> that
  are active at the current hour and whose threshold is at most the reading.
\<close>

definition breaching :: "env \<Rightarrow> state \<Rightarrow> string \<Rightarrow> alarm list" where
  "breaching e s r =
     [a \<leftarrow> alarms s. resource a = r \<and> is_alarm_active (hour e) a \<and> le_num (threshold a) (reading e s r)]"

section \<open>Valid and accepted thresholds\<close>

text \<open>
  The valid thresholds in the words of the specification: an integer from 1 to 100 for cpu,
  ram and disk, a positive integer for logs.
\<close>

definition valid_threshold :: "string \<Rightarrow> pyval \<Rightarrow> bool" where
  "valid_threshold r thr =
     (case thr of
        PInt t \<Rightarrow> (if r = ''logs'' then 0 < t else 1 \<le> t \<and> t \<le> 100)
      | _ \<Rightarrow> False)"

text \<open>
  The name stored by \<^const>\<open>add_alarm\<close> for a rule of integer threshold \<open>t\<close>: the name given,
  or the one derived from resource and threshold.
\<close>

definition new_alarm_name :: "pyval \<Rightarrow> string \<Rightarrow> int \<Rightarrow> pyval" where
  "new_alarm_name nm r t =
     (if truthy nm then nm
      else PStr (if r \<noteq> ''logs'' then upper r @ '' alarm '' @ str_int t @ ''%''
                 else ''LOGS alarm '' @ str_int t))"


section \<open>The alarm list as objects: references\<close>

text \<open>
  In the source \<^verbatim>\<open>self.alarms\<close> is a list object whose elements are references to
  dictionaries, and \<^verbatim>\<open>sorted(self.alarms, ...)\<close> builds a new list object holding the same
  references. The heap makes this sharing explicit: list objects and dictionaries live at
  addresses, and \<open>next_ref\<close> is the next free address.
\<close>

type_synonym ref = nat

record heap =
  dicts :: "ref \<rightharpoonup> alarm"
  lists :: "ref \<rightharpoonup> ref list"
  next_ref :: ref

text \<open>The alarm of a reference; a dangling reference cannot be read.\<close>

fun deref_all :: "heap \<Rightarrow> ref list \<Rightarrow> alarm list option" where
  "deref_all h [] = Some []"
| "deref_all h (r # rs) =
     (case dicts h r of
        None \<Rightarrow> None
      | Some a \<Rightarrow> (case deref_all h rs of None \<Rightarrow> None | Some as \<Rightarrow> Some (a # as)))"

text \<open>The alarms of the store, read through the list object at \<open>la\<close> (\<^verbatim>\<open>self.alarms\<close>).\<close>

definition store_alarms :: "ref \<Rightarrow> heap \<Rightarrow> alarm list option" where
  "store_alarms la h = (case lists h la of None \<Rightarrow> None | Some rs \<Rightarrow> deref_all h rs)"

definition ref_key :: "heap \<Rightarrow> ref \<Rightarrow> nat \<times> real" where
  "ref_key h r =
     (case dicts h r of
        Some a \<Rightarrow> (sort_order (resource a), num_val (threshold a))
      | None \<Rightarrow> (99, 0))"

text \<open>
  \<^verbatim>\<open>get_alarms\<close> on the heap: a new list object, at a fresh address, holding the references
  of \<^verbatim>\<open>self.alarms\<close> in sorted order. The result is the address of the new list.
\<close>

definition get_alarms_ref :: "ref \<Rightarrow> heap \<Rightarrow> (ref \<times> heap) option" where
  "get_alarms_ref la h =
     (case lists h la of
        None \<Rightarrow> None
      | Some rs \<Rightarrow>
         (case deref_all h rs of
            None \<Rightarrow> None
          | Some as \<Rightarrow>
             Some (next_ref h,
                   h\<lparr>lists := (lists h)(next_ref h \<mapsto> sort_key (ref_key h) rs),
                     next_ref := Suc (next_ref h)\<rparr>)))"

text \<open>
  What a caller can do with the returned value: change the content of the list object at
  \<open>l\<close> in any way (append, delete, assign, sort, clear), or change the dictionary at \<open>d\<close> in
  place.
\<close>

definition mutate_list :: "ref \<Rightarrow> (ref list \<Rightarrow> ref list) \<Rightarrow> heap \<Rightarrow> heap" where
  "mutate_list l f h =
     (case lists h l of None \<Rightarrow> h | Some rs \<Rightarrow> h\<lparr>lists := (lists h)(l \<mapsto> f rs)\<rparr>)"

definition mutate_dict :: "ref \<Rightarrow> (alarm \<Rightarrow> alarm) \<Rightarrow> heap \<Rightarrow> heap" where
  "mutate_dict d g h =
     (case dicts h d of None \<Rightarrow> h | Some a \<Rightarrow> h\<lparr>dicts := (dicts h)(d \<mapsto> g a)\<rparr>)"

section \<open>The effect of a tick on the triggered alarm\<close>

text \<open>
  The triggered alarm that checking the resource \<open>r\<close> establishes, if any, as a function
  of the alarm list alone: the selection of \<^const>\<open>check_resource\<close> without the logging and
  the mail. Lemma \<open>check_resource_triggered\<close> relates the two.
\<close>

definition winner :: "env \<Rightarrow> usage \<Rightarrow> nat \<Rightarrow> alarm list \<Rightarrow> string \<Rightarrow> triggered option" where
  "winner e u n xs r =
     (let v = (if r = ''logs'' then IntV (int n) else usage_get u r)
      in case [a \<leftarrow> sort_key (\<lambda>a. (sort_order (resource a), num_val (threshold a))) xs.
                 (resource a = r \<and> le_num (threshold a) v) \<and> is_alarm_active (hour e) a] of
           [] \<Rightarrow> None
         | a # as \<Rightarrow> Some \<lparr>rule = max_by threshold a as, current_value = v, triggered_at = now_iso e\<rparr>)"

text \<open>The usage dictionary and the log count that the checks of a tick work with.\<close>

definition tick_usage :: "env \<Rightarrow> state \<Rightarrow> usage" where
  "tick_usage e s = (fst (get_system_usage (sample e) s))
      \<lparr>logs_percent := Some (IntV (int (length (log_lines e (snd (get_system_usage (sample e) s))))))\<rparr>"

definition tick_log_count :: "env \<Rightarrow> state \<Rightarrow> nat" where
  "tick_log_count e s = length (log_lines e (snd (get_system_usage (sample e) s)))"

section \<open>Example data\<close>

text \<open>Concrete alarms, readings and states, used to evaluate the functions above.\<close>

definition mk_alarm :: "string \<Rightarrow> string \<Rightarrow> int \<Rightarrow> string \<Rightarrow> alarm" where
  "mk_alarm i r t p =
     \<lparr>alarm_id = i, name = PStr (upper r @ '' alarm''), resource = r, threshold = IntV t,
      active_period = Some p\<rparr>"

definition demo_usage :: usage where
  "demo_usage =
     \<lparr>cpu_percent = 90, ram_percent = 40, ram_total_gb = 16, ram_used_gb = 6.4,
      disk_percent = 50, disk_total_gb = 512, disk_used_gb = 256, logs_percent = None\<rparr>"

definition demo_env :: "nat \<Rightarrow> string + usage \<Rightarrow> env" where
  "demo_env h smp =
     \<lparr>sample = smp, hour = h, now_iso = ''2025-01-15T10:30:00'', alert_any = False,
      mail = NotConfigured, mail_config_error = None, history_error = None,
      history_unreadable = False\<rparr>"

definition demo_state :: "alarm list \<Rightarrow> triggered option \<Rightarrow> log_line list \<Rightarrow> state" where
  "demo_state xs t ls =
     \<lparr>alarms = xs, triggered_alarm = t, alarms_file = xs, log_file = ls, log_writable = True,
      alarms_write_error = None, outbox = [], float_str = (\<lambda>x. ''?'')\<rparr>"

definition demo_log :: "log_line list" where
  "demo_log = replicate 5 ''[SYSTEM] Application_start''"

definition cpu70 :: alarm where "cpu70 = mk_alarm ''id-cpu-70'' ''cpu'' 70 ''always''"
definition cpu85 :: alarm where "cpu85 = mk_alarm ''id-cpu-85'' ''cpu'' 85 ''always''"
definition cpu88_office :: alarm where "cpu88_office = mk_alarm ''id-cpu-88'' ''cpu'' 88 ''office''"
definition logs3 :: alarm where "logs3 = mk_alarm ''id-logs-3'' ''logs'' 3 ''always''"

definition stale :: triggered where
  "stale = \<lparr>rule = cpu85, current_value = FloatV 97, triggered_at = ''2025-01-15T09:00:00''\<rparr>"

definition calm_usage :: usage where
  "calm_usage =
     \<lparr>cpu_percent = 12, ram_percent = 40, ram_total_gb = 16, ram_used_gb = 6.4,
      disk_percent = 50, disk_total_gb = 512, disk_used_gb = 256, logs_percent = None\<rparr>"

definition logs6 :: alarm where "logs6 = mk_alarm ''id-logs-6'' ''logs'' 6 ''always''"
definition logs7 :: alarm where "logs7 = mk_alarm ''id-logs-7'' ''logs'' 7 ''always''"


text \<open>The environment of a pass in which reading the log raises.\<close>

definition raising_env :: env where
  "raising_env = (demo_env 10 (Inl ''psutil failed''))\<lparr>history_error := Some ''FileExistsError''\<rparr>"


text \<open>A heap with two rules and the list of the store at address 1.\<close>

definition demo_heap :: heap where
  "demo_heap = \<lparr>dicts = [10 \<mapsto> cpu85, 11 \<mapsto> cpu70], lists = [1 \<mapsto> [10, 11]], next_ref = 20\<rparr>"

section \<open>Basic lemmas\<close>

lemmas demo = mk_alarm_def demo_usage_def demo_env_def demo_state_def demo_log_def

lemmas demo_alarms = cpu70_def cpu85_def cpu88_office_def logs3_def

lemma pynum_le_refl [simp]: "(a :: pynum) \<le> a"
  by (simp add: less_eq_pynum_def)

lemma pynum_le_trans: "(a :: pynum) \<le> b \<Longrightarrow> b \<le> c \<Longrightarrow> a \<le> c"
  by (simp add: less_eq_pynum_def)

lemma pynum_less_le: "(a :: pynum) < b \<Longrightarrow> a \<le> b"
  by (simp add: less_eq_pynum_def less_pynum_def)

lemma pynum_not_less: "\<not> (a :: pynum) < b \<longleftrightarrow> b \<le> a"
  by (auto simp: less_eq_pynum_def less_pynum_def)

lemma pynum_less_not_le: "(a :: pynum) < b \<Longrightarrow> \<not> b \<le> a"
  by (auto simp: less_eq_pynum_def less_pynum_def)

lemma max_by_in: "max_by key b xs \<in> set (b # xs)"
  by (induction xs arbitrary: b) auto

lemma max_by_ge: "x \<in> set (b # xs) \<Longrightarrow> key x \<le> key (max_by key b xs)"
proof (induction xs arbitrary: b x)
  case Nil
  then show ?case by simp
next
  case (Cons y ys)
  have *: "key (if key b < key y then y else b) \<le> key (max_by key (if key b < key y then y else b) ys)"
    using Cons.IH[of "if key b < key y then y else b" "if key b < key y then y else b"] by simp
  show ?case
  proof (cases "x \<in> set ys")
    case True
    then show ?thesis using Cons.IH[of x "if key b < key y then y else b"] by simp
  next
    case False
    with Cons.prems have "x = b \<or> x = y" by auto
    then show ?thesis using * by (auto simp: less_eq_pynum_def less_pynum_def split: if_splits)
  qed
qed

lemma max_by_first:
  "max_by key b xs = hd [a \<leftarrow> b # xs. \<forall>x \<in> set (b # xs). key x \<le> key a]"
proof (induction xs arbitrary: b)
  case Nil
  then show ?case by simp
next
  case (Cons y ys)
  show ?case
  proof (cases "key b < key y")
    case True
    have "[a \<leftarrow> b # y # ys. \<forall>x \<in> set (b # y # ys). key x \<le> key a]
        = [a \<leftarrow> y # ys. \<forall>x \<in> set (y # ys). key x \<le> key a]"
      using True by (auto simp: less_eq_pynum_def less_pynum_def intro!: filter_cong)
    then show ?thesis using True Cons.IH[of y] by simp
  next
    case False
    show ?thesis
    proof (cases "\<forall>x \<in> set ys. key x \<le> key b")
      case True
      then show ?thesis using False Cons.IH[of b] by (auto simp: less_eq_pynum_def less_pynum_def)
    next
      case nb: False
      have "[a \<leftarrow> b # y # ys. \<forall>x \<in> set (b # y # ys). key x \<le> key a]
        = [a \<leftarrow> b # ys. \<forall>x \<in> set (b # ys). key x \<le> key a]"
        using False nb by (auto simp: less_eq_pynum_def less_pynum_def intro!: filter_cong)
      then show ?thesis using False Cons.IH[of b] by simp
    qed
  qed
qed

lemma log_event_fields [simp]:
  "alarms (log_event m c s) = alarms s"
  "triggered_alarm (log_event m c s) = triggered_alarm s"
  "alarms_file (log_event m c s) = alarms_file s"
  "log_writable (log_event m c s) = log_writable s"
  "alarms_write_error (log_event m c s) = alarms_write_error s"
  "outbox (log_event m c s) = outbox s"
  by (simp_all add: log_event_def)

lemma send_alert_email_fields:
  "send_alert_email e subj body s = Inr (ok, s') \<Longrightarrow>
     alarms s' = alarms s \<and> triggered_alarm s' = triggered_alarm s \<and> alarms_file s' = alarms_file s"
  by (auto simp: send_alert_email_def Let_def split: mail_outcome.splits option.splits)

lemma trigger_alarm_fields [simp]:
  "alarms (trigger_alarm e a v m s) = alarms s"
  "alarms_file (trigger_alarm e a v m s) = alarms_file s"
  "triggered_alarm (trigger_alarm e a v m s) =
     Some \<lparr>rule = a, current_value = v, triggered_at = now_iso e\<rparr>"
  by (auto simp: trigger_alarm_def Let_def split: sum.splits dest: send_alert_email_fields)

lemma check_resource_alarms [simp]: "alarms (check_resource e u n r s) = alarms s"
  by (simp add: check_resource_def Let_def split: list.splits)

lemma check_resource_triggered:
  "triggered_alarm (check_resource e u n r s) =
     (case winner e u n (alarms s) r of None \<Rightarrow> triggered_alarm s | Some t \<Rightarrow> Some t)"
proof -
  define v where "v = (if r = ''logs'' then IntV (int n) else usage_get u r)"
  define ra where "ra = [a \<leftarrow> get_alarms s. resource a = r \<and> le_num (threshold a) v]"
  define act where "act = filter (is_alarm_active (hour e)) ra"
  have act_eq: "act = [a \<leftarrow> sort_key (\<lambda>a. (sort_order (resource a), num_val (threshold a))) (alarms s).
                 (resource a = r \<and> le_num (threshold a) v) \<and> is_alarm_active (hour e) a]"
    by (simp add: act_def ra_def get_alarms_def)
  have w: "winner e u n (alarms s) r =
      (case act of [] \<Rightarrow> None
       | a # as \<Rightarrow> Some \<lparr>rule = max_by threshold a as, current_value = v, triggered_at = now_iso e\<rparr>)"
    unfolding winner_def act_eq v_def Let_def ..
  have c: "check_resource e u n r s =
      (if ra \<noteq> [] then
         (case act of [] \<Rightarrow> s
          | a # as \<Rightarrow>
             (if r = ''logs''
              then trigger_alarm e (max_by threshold a as) v
                     (Some (''Log count ('' @ str_num (float_str s) v @ '') exceeds threshold'')) s
              else trigger_alarm e (max_by threshold a as) v None s))
       else s)"
    unfolding check_resource_def ra_def act_def v_def Let_def by simp
  show ?thesis
  proof (cases act)
    case Nil
    then show ?thesis by (simp add: c w)
  next
    case (Cons a as)
    then have "ra \<noteq> []" by (auto simp: act_def)
    then show ?thesis using Cons by (simp add: c w)
  qed
qed

lemma fold_check_alarms [simp]: "alarms (fold (check_resource e u n) rs s) = alarms s"
  by (induction rs arbitrary: s) auto

lemma fold_check_triggered:
  "triggered_alarm (fold (check_resource e u n) rs s) =
     fold (\<lambda>r t. case winner e u n (alarms s) r of None \<Rightarrow> t | Some w \<Rightarrow> Some w) rs (triggered_alarm s)"
  by (induction rs arbitrary: s) (auto simp: check_resource_triggered)

lemma get_system_usage_fields [simp]:
  "alarms (snd (get_system_usage p s)) = alarms s"
  "triggered_alarm (snd (get_system_usage p s)) = triggered_alarm s"
  by (auto simp: get_system_usage_def split: sum.splits)

lemma tick_triggered:
  "triggered_alarm (tick e s) =
     fold (\<lambda>r t. case winner e (tick_usage e s) (tick_log_count e s) (alarms s) r of None \<Rightarrow> t | Some w \<Rightarrow> Some w)
       AVAILABLE_RESOURCES (triggered_alarm s)"
proof -
  obtain u s1 where g: "get_system_usage (sample e) s = (u, s1)"
    by (cases "get_system_usage (sample e) s")
  have "alarms s1 = alarms s" "triggered_alarm s1 = triggered_alarm s"
    using get_system_usage_fields[of "sample e" s] g by simp_all
  then show ?thesis
    by (simp add: tick_def evaluate_def tick_usage_def tick_log_count_def g Let_def fold_check_triggered)
qed

lemma tick_value:
  "(if r = ''logs'' then IntV (int (tick_log_count e s)) else usage_get (tick_usage e s) r) = reading e s r"
  by (auto simp: reading_def tick_usage_def tick_log_count_def usage_get_def split: prod.splits)

lemma winner_None_iff:
  "winner e (tick_usage e s) (tick_log_count e s) (alarms s) r = None \<longleftrightarrow> breaching e s r = []"
proof -
  let ?c = "[a \<leftarrow> sort_key (\<lambda>a. (sort_order (resource a), num_val (threshold a))) (alarms s).
                 (resource a = r \<and> le_num (threshold a) (reading e s r)) \<and> is_alarm_active (hour e) a]"
  have "winner e (tick_usage e s) (tick_log_count e s) (alarms s) r = None \<longleftrightarrow> ?c = []"
    unfolding winner_def tick_value Let_def by (simp split: list.splits)
  also have "\<dots> \<longleftrightarrow> breaching e s r = []"
    unfolding breaching_def filter_empty_conv by auto
  finally show ?thesis .
qed

lemma winner_Some:
  assumes "winner e (tick_usage e s) (tick_log_count e s) (alarms s) r = Some t"
  shows "current_value t = reading e s r \<and> triggered_at t = now_iso e
         \<and> rule t \<in> set (breaching e s r) \<and> (\<forall>a \<in> set (breaching e s r). threshold a \<le> threshold (rule t))"
proof -
  let ?c = "[a \<leftarrow> sort_key (\<lambda>a. (sort_order (resource a), num_val (threshold a))) (alarms s).
                 (resource a = r \<and> le_num (threshold a) (reading e s r)) \<and> is_alarm_active (hour e) a]"
  have set_c: "set ?c = set (breaching e s r)"
    by (auto simp: breaching_def)
  from assms obtain a as where c: "?c = a # as"
    and t: "t = \<lparr>rule = max_by threshold a as, current_value = reading e s r, triggered_at = now_iso e\<rparr>"
    unfolding winner_def tick_value Let_def by (auto split: list.splits)
  have in_c: "rule t \<in> set ?c"
    using max_by_in[of threshold a as] c t by simp
  have ge_c: "\<forall>x \<in> set ?c. threshold x \<le> threshold (rule t)"
    using max_by_ge[of _ a as threshold] c t by simp
  have "current_value t = reading e s r" "triggered_at t = now_iso e"
    using t by simp_all
  then show ?thesis
    using in_c[unfolded set_c] ge_c[unfolded set_c] by blast
qed

lemma fold_keep:
  "\<forall>q \<in> set rs. f q = None \<Longrightarrow> fold (\<lambda>r t. case f r of None \<Rightarrow> t | Some w \<Rightarrow> Some w) rs t0 = t0"
  by (induction rs arbitrary: t0) auto

section \<open>Several resources breach in one tick\<close>

text \<open>
  C1. When the rules of several resources breach in one tick, the triggered alarm at the end
  of the tick belongs to the last breaching resource in the order cpu, ram, disk, logs: if
  \<open>r\<close> breaches and no resource after \<open>r\<close> in \<^const>\<open>AVAILABLE_RESOURCES\<close> does, the triggered
  alarm is a breaching rule of \<open>r\<close> of maximal threshold, with the reading of \<open>r\<close>. In the
  example cpu and logs both breach, and the triggered alarm is the logs rule.
\<close>

theorem last_breaching_resource_wins:
  assumes "AVAILABLE_RESOURCES = pre @ r # post"
      and "breaching e s r \<noteq> []"
      and "\<forall>q \<in> set post. breaching e s q = []"
  shows "\<exists>w. triggered_alarm (tick e s)
               = Some \<lparr>rule = w, current_value = reading e s r, triggered_at = now_iso e\<rparr>
             \<and> w \<in> set (breaching e s r)
             \<and> (\<forall>a \<in> set (breaching e s r). threshold a \<le> threshold w)"
proof -
  let ?f = "winner e (tick_usage e s) (tick_log_count e s) (alarms s)"
  let ?step = "\<lambda>r t. case ?f r of None \<Rightarrow> t | Some w \<Rightarrow> Some w"
  from assms(2) obtain t where t: "?f r = Some t"
    using winner_None_iff[of e s r] by (cases "?f r") auto
  have post: "\<forall>q \<in> set post. ?f q = None"
    using assms(3) winner_None_iff by blast
  have "triggered_alarm (tick e s) = fold ?step (pre @ r # post) (triggered_alarm s)"
    using assms(1) by (simp add: tick_triggered)
  also have "\<dots> = fold ?step post (Some t)"
    using t by simp
  also have "\<dots> = Some t"
    using fold_keep[OF post] by simp
  finally have "triggered_alarm (tick e s) = Some t" .
  moreover have "t = \<lparr>rule = rule t, current_value = reading e s r, triggered_at = now_iso e\<rparr>"
    using winner_Some[OF t] by simp
  ultimately show ?thesis using winner_Some[OF t] by metis
qed

theorem last_breaching_resource_wins_witness:
  "breaching (demo_env 10 (Inr demo_usage)) (demo_state [cpu85, logs3] None demo_log) ''cpu'' \<noteq> []
   \<and> breaching (demo_env 10 (Inr demo_usage)) (demo_state [cpu85, logs3] None demo_log) ''logs'' \<noteq> []
   \<and> triggered_alarm (tick (demo_env 10 (Inr demo_usage)) (demo_state [cpu85, logs3] None demo_log))
       = Some \<lparr>rule = logs3, current_value = IntV 5, triggered_at = ''2025-01-15T10:30:00''\<rparr>"
proof -
  let ?e = "demo_env 10 (Inr demo_usage)"
  let ?s = "demo_state [cpu85, logs3] None demo_log"
  have order: "AVAILABLE_RESOURCES = [''cpu'', ''ram'', ''disk''] @ ''logs'' # []"
    by (simp add: AVAILABLE_RESOURCES_def)
  have cpu: "breaching ?e ?s ''cpu'' = [cpu85]" by code_simp
  have logs: "breaching ?e ?s ''logs'' = [logs3]" by code_simp
  have v: "reading ?e ?s ''logs'' = IntV 5" by code_simp
  have now: "now_iso ?e = ''2025-01-15T10:30:00''" by (simp add: demo_env_def)
  from last_breaching_resource_wins[OF order, of ?e ?s] logs
  obtain w where "triggered_alarm (tick ?e ?s)
       = Some \<lparr>rule = w, current_value = reading ?e ?s ''logs'', triggered_at = now_iso ?e\<rparr>"
    and "w \<in> set (breaching ?e ?s ''logs'')"
    by auto
  then show ?thesis using cpu logs v now by simp
qed

section \<open>The highest breached threshold wins a resource\<close>

text \<open>
  C3. Checking a resource triggers, among its rules that are active at the current hour and
  whose threshold is at most the reading (equality included), the rule of maximal threshold;
  among several of that threshold it is the first in the order of \<^const>\<open>get_alarms\<close>. In the
  example the cpu reading is 90 and the rules have thresholds 70 and 85: the rule of
  threshold 85 is triggered.
\<close>

theorem highest_threshold_rule_triggered:
  assumes "v = (if r = ''logs'' then IntV (int n) else usage_get u r)"
      and "c = [a \<leftarrow> get_alarms s. resource a = r \<and> is_alarm_active (hour e) a \<and> le_num (threshold a) v]"
      and "c \<noteq> []"
  shows "\<exists>w. triggered_alarm (check_resource e u n r s)
               = Some \<lparr>rule = w, current_value = v, triggered_at = now_iso e\<rparr>
             \<and> w \<in> set c
             \<and> (\<forall>a \<in> set c. threshold a \<le> threshold w)
             \<and> w = hd [a \<leftarrow> c. \<forall>b \<in> set c. threshold b \<le> threshold a]"
proof -
  have c_eq: "c = [a \<leftarrow> sort_key (\<lambda>a. (sort_order (resource a), num_val (threshold a))) (alarms s).
                 (resource a = r \<and> le_num (threshold a) v) \<and> is_alarm_active (hour e) a]"
    unfolding assms(2) get_alarms_def by (rule filter_cong) auto
  from assms(3) obtain a as where c: "c = a # as" by (cases c) auto
  have w: "winner e u n (alarms s) r
           = Some \<lparr>rule = max_by threshold a as, current_value = v, triggered_at = now_iso e\<rparr>"
    unfolding winner_def Let_def assms(1)[symmetric] c_eq[symmetric] c by simp
  have "triggered_alarm (check_resource e u n r s)
           = Some \<lparr>rule = max_by threshold a as, current_value = v, triggered_at = now_iso e\<rparr>"
    by (simp add: check_resource_triggered w)
  moreover have "max_by threshold a as \<in> set c"
    using max_by_in[of threshold a as] c by simp
  moreover have "\<forall>x \<in> set c. threshold x \<le> threshold (max_by threshold a as)"
    using max_by_ge[of _ a as threshold] c by simp
  moreover have "max_by threshold a as = hd [x \<leftarrow> c. \<forall>b \<in> set c. threshold b \<le> threshold x]"
    using max_by_first[of threshold a as] c by simp
  ultimately show ?thesis by blast
qed

theorem highest_threshold_rule_triggered_witness:
  "get_alarms (demo_state [cpu85, cpu70] None demo_log) = [cpu70, cpu85]
   \<and> usage_get demo_usage ''cpu'' = FloatV 90
   \<and> triggered_alarm (check_resource (demo_env 10 (Inr demo_usage)) demo_usage 5 ''cpu''
                         (demo_state [cpu85, cpu70] None demo_log))
       = Some \<lparr>rule = cpu85, current_value = FloatV 90, triggered_at = ''2025-01-15T10:30:00''\<rparr>"
proof -
  let ?e = "demo_env 10 (Inr demo_usage)"
  let ?s = "demo_state [cpu85, cpu70] None demo_log"
  have g: "get_alarms ?s = [cpu70, cpu85]" by code_simp
  have v: "FloatV 90 = (if ''cpu'' = ''logs'' then IntV (int 5) else usage_get demo_usage ''cpu'')"
    by (simp add: usage_get_def demo_usage_def)
  have c: "[cpu70, cpu85] = [a \<leftarrow> get_alarms ?s. resource a = ''cpu'' \<and> is_alarm_active (hour ?e) a
                               \<and> le_num (threshold a) (FloatV 90)]"
    unfolding g by (simp add: demo demo_alarms is_alarm_active_def le_num_def)
  have h: "hd [a \<leftarrow> [cpu70, cpu85]. \<forall>b \<in> set [cpu70, cpu85]. threshold b \<le> threshold a] = cpu85"
    by (simp add: demo demo_alarms less_eq_pynum_def)
  have now: "now_iso ?e = ''2025-01-15T10:30:00''" by (simp add: demo_env_def)
  from highest_threshold_rule_triggered[OF v c] h now
  have "triggered_alarm (check_resource ?e demo_usage 5 ''cpu'' ?s)
       = Some \<lparr>rule = cpu85, current_value = FloatV 90, triggered_at = ''2025-01-15T10:30:00''\<rparr>"
    by auto
  then show ?thesis using g v by simp
qed

section \<open>The active-period predicate\<close>

text \<open>
  C8. For every hour, the predicate is true for \<^verbatim>\<open>always\<close>; for \<^verbatim>\<open>day\<close> exactly when the hour
  is in [6,21]; for \<^verbatim>\<open>night\<close> exactly when the hour is below 6 or above 21; for \<^verbatim>\<open>office\<close>
  exactly when the hour is in [9,17]; for \<^verbatim>\<open>non-office\<close> the negation of the office window;
  and true for any other tag. The statement holds for every natural number as hour, so in
  particular for the hours 0 to 23.
\<close>

theorem is_alarm_active_periods:
  "is_alarm_active h (a\<lparr>active_period := Some ''always''\<rparr>)
   \<and> (is_alarm_active h (a\<lparr>active_period := Some ''day''\<rparr>) \<longleftrightarrow> 6 \<le> h \<and> h \<le> 21)
   \<and> (is_alarm_active h (a\<lparr>active_period := Some ''night''\<rparr>) \<longleftrightarrow> h < 6 \<or> h > 21)
   \<and> (is_alarm_active h (a\<lparr>active_period := Some ''office''\<rparr>) \<longleftrightarrow> 9 \<le> h \<and> h \<le> 17)
   \<and> (is_alarm_active h (a\<lparr>active_period := Some ''non-office''\<rparr>)
        \<longleftrightarrow> \<not> is_alarm_active h (a\<lparr>active_period := Some ''office''\<rparr>))
   \<and> (p \<notin> {''always'', ''day'', ''night'', ''office'', ''non-office''}
        \<longrightarrow> is_alarm_active h (a\<lparr>active_period := Some p\<rparr>))"
  by (simp add: is_alarm_active_def)

theorem is_alarm_active_periods_witness:
  "''weekend'' \<notin> {''always'', ''day'', ''night'', ''office'', ''non-office''}
   \<and> is_alarm_active 22
        \<lparr>alarm_id = ''a1'', name = PStr ''n'', resource = ''cpu'', threshold = IntV 80,
         active_period = Some ''weekend''\<rparr>
   \<and> \<not> is_alarm_active 22
        \<lparr>alarm_id = ''a1'', name = PStr ''n'', resource = ''cpu'', threshold = IntV 80,
         active_period = Some ''office''\<rparr>
   \<and> is_alarm_active 17
        \<lparr>alarm_id = ''a1'', name = PStr ''n'', resource = ''cpu'', threshold = IntV 80,
         active_period = Some ''office''\<rparr>"
  using is_alarm_active_periods
    [of 22 "\<lparr>alarm_id = ''a1'', name = PStr ''n'', resource = ''cpu'', threshold = IntV 80,
             active_period = None\<rparr>" "''weekend''"]
    is_alarm_active_periods
    [of 17 "\<lparr>alarm_id = ''a1'', name = PStr ''n'', resource = ''cpu'', threshold = IntV 80,
             active_period = None\<rparr>" "''weekend''"]
  by simp

section \<open>Inactive rules\<close>

lemma winner_filter_active:
  "winner e u n (filter (is_alarm_active (hour e)) xs) r = winner e u n xs r"
proof -
  let ?k = "\<lambda>a. (sort_order (resource a), num_val (threshold a))"
  have "filter P (sort_key ?k (filter (is_alarm_active (hour e)) xs))
      = filter (\<lambda>a. is_alarm_active (hour e) a \<and> P a) (sort_key ?k xs)" for P
    by (simp add: filter_sort[symmetric])
  then show ?thesis
    unfolding winner_def Let_def
    by (simp add: conj_commute conj_left_commute cong: conj_cong)
qed

lemma tick_readings_alarms [simp]:
  "tick_usage e (s\<lparr>alarms := xs\<rparr>) = tick_usage e s"
  "tick_log_count e (s\<lparr>alarms := xs\<rparr>) = tick_log_count e s"
  by (auto simp: tick_usage_def tick_log_count_def get_system_usage_def log_lines_def
      log_event_def split: sum.splits)

lemma fold_step_cases:
  "fold (\<lambda>r t. case f r of None \<Rightarrow> t | Some w \<Rightarrow> Some w) rs t0 = Some t \<Longrightarrow>
     t0 = Some t \<or> (\<exists>r \<in> set rs. f r = Some t)"
proof (induction rs arbitrary: t0)
  case Nil
  then show ?case by simp
next
  case (Cons r rs)
  from Cons.IH[OF Cons.prems[simplified]] show ?case
    by (auto split: option.splits)
qed

text \<open>
  What a tick does with inactive rules: a triggered alarm found after the tick either was
  the triggered alarm before it or is a stored rule that is active at the current hour, and
  the tick ends with the same triggered alarm as on the store without the inactive rules,
  so an inactive rule of higher threshold does not keep an active rule of lower threshold
  from winning.
\<close>

lemma tick_sets_only_active_rules:
  "(triggered_alarm (tick e s) = Some t \<longrightarrow>
      triggered_alarm s = Some t \<or> (rule t \<in> set (alarms s) \<and> is_alarm_active (hour e) (rule t)))
   \<and> triggered_alarm (tick e s)
       = triggered_alarm (tick e (s\<lparr>alarms := filter (is_alarm_active (hour e)) (alarms s)\<rparr>))"
proof (intro conjI impI)
  assume "triggered_alarm (tick e s) = Some t"
  then have "triggered_alarm s = Some t
     \<or> (\<exists>r \<in> set AVAILABLE_RESOURCES.
           winner e (tick_usage e s) (tick_log_count e s) (alarms s) r = Some t)"
    unfolding tick_triggered by (rule fold_step_cases)
  then show "triggered_alarm s = Some t
     \<or> (rule t \<in> set (alarms s) \<and> is_alarm_active (hour e) (rule t))"
  proof
    assume "triggered_alarm s = Some t"
    then show ?thesis by simp
  next
    assume "\<exists>r \<in> set AVAILABLE_RESOURCES.
           winner e (tick_usage e s) (tick_log_count e s) (alarms s) r = Some t"
    then obtain r where "winner e (tick_usage e s) (tick_log_count e s) (alarms s) r = Some t"
      by blast
    from winner_Some[OF this] have "rule t \<in> set (breaching e s r)" by simp
    then show ?thesis by (simp add: breaching_def)
  qed
next
  show "triggered_alarm (tick e s)
       = triggered_alarm (tick e (s\<lparr>alarms := filter (is_alarm_active (hour e)) (alarms s)\<rparr>))"
    by (simp add: tick_triggered winner_filter_active)
qed

lemma inactive_rule_examples:
  "triggered_alarm (tick (demo_env 22 (Inr demo_usage)) (demo_state [cpu88_office] None demo_log)) = None
   \<and> triggered_alarm (tick (demo_env 22 (Inr demo_usage)) (demo_state [cpu88_office, cpu70] None demo_log))
     = Some \<lparr>rule = cpu70, current_value = FloatV 90, triggered_at = ''2025-01-15T10:30:00''\<rparr>"
  by code_simp

text \<open>
  The method \<^verbatim>\<open>_check_alarms\<close>, which the monitor thread does not call, has no such filter:
  on the same store at hour 22 it triggers the office rule.
\<close>

lemma check_alarms_ignores_active_period:
  "triggered_alarm (check_alarms (demo_env 22 (Inr demo_usage)) demo_usage
                      (demo_state [cpu88_office] None demo_log))
     = Some \<lparr>rule = cpu88_office, current_value = FloatV 90,
              triggered_at = ''2025-01-15T10:30:00''\<rparr>"
  by code_simp


section \<open>A tick without a breach\<close>

lemma tick_no_breach_unchanged:
  assumes "\<forall>r \<in> set AVAILABLE_RESOURCES. breaching e s r = []"
  shows "triggered_alarm (tick e s) = triggered_alarm s"
proof -
  have "\<forall>r \<in> set AVAILABLE_RESOURCES.
          winner e (tick_usage e s) (tick_log_count e s) (alarms s) r = None"
    using assms winner_None_iff by blast
  then show ?thesis
    unfolding tick_triggered by (rule fold_keep)
qed

text \<open>
  C2. The claim is that every tick resets the triggered alarm before the resources are
  processed, so that a tick without a breach ends with no triggered alarm. The loop of the
  monitor thread has no such reset (lemma \<open>tick_no_breach_unchanged\<close>): with the cpu reading
  at 12 and one cpu rule of threshold 85, no rule breaches, and the alarm triggered earlier
  is still the triggered alarm after the tick. The method \<^verbatim>\<open>_check_alarms\<close>, which does
  reset, ends with none on the same input.
\<close>

theorem tick_keeps_stale_alarm:
  "breaching (demo_env 10 (Inr calm_usage)) (demo_state [cpu85] (Some stale) []) ''cpu'' = []
   \<and> breaching (demo_env 10 (Inr calm_usage)) (demo_state [cpu85] (Some stale) []) ''ram'' = []
   \<and> breaching (demo_env 10 (Inr calm_usage)) (demo_state [cpu85] (Some stale) []) ''disk'' = []
   \<and> breaching (demo_env 10 (Inr calm_usage)) (demo_state [cpu85] (Some stale) []) ''logs'' = []
   \<and> get_triggered_alarm (tick (demo_env 10 (Inr calm_usage)) (demo_state [cpu85] (Some stale) []))
       = Some stale
   \<and> get_triggered_alarm (check_alarms (demo_env 10 (Inr calm_usage)) calm_usage
                              (demo_state [cpu85] (Some stale) []))
       = None"
  by code_simp

section \<open>A pass whose sample fails\<close>

lemma run_pass_tick: "history_error e = None \<Longrightarrow> run_pass e s = tick e s"
  by (simp add: run_pass_def try_block_def tick_def get_log_history_def split: prod.splits)

lemma try_block_returns: "history_error e = None \<Longrightarrow> try_block e s = Inr (tick e s)"
  by (simp add: try_block_def tick_def get_log_history_def split: prod.splits)

lemma try_block_raises:
  "history_error e = Some cls \<Longrightarrow>
     try_block e s = Inl (cls, snd (get_system_usage (sample e) s))"
  by (simp add: try_block_def get_log_history_def split: prod.splits)

lemma run_pass_handler:
  "history_error e = Some cls \<Longrightarrow>
     run_pass e s = log_event (''Monitor_Thread_Loop_Error:_'' @ cls) ''CRITICAL''
                      (snd (get_system_usage (sample e) s))"
  by (simp add: run_pass_def try_block_raises)

lemma log_event_log: "prefix (log_file s) (log_file (log_event m c s))"
  by (simp add: log_event_def)

lemma send_alert_email_log:
  "send_alert_email e subj body s = Inr (ok, s') \<Longrightarrow> prefix (log_file s) (log_file s')"
  by (auto simp: send_alert_email_def log_event_def Let_def prefix_def
      split: mail_outcome.splits option.splits if_splits)

lemma mail_step_log:
  "prefix (log_file s1) (log_file
      (case send_alert_email e subj body s1 of
         Inl x \<Rightarrow> log_event (''Failed_to_send_alert_notification:_'' @ x) ''ERROR'' s1
       | Inr (ok, s3) \<Rightarrow> s3))"
proof (cases "send_alert_email e subj body s1")
  case (Inl x)
  then show ?thesis using log_event_log by simp
next
  case (Inr p)
  then show ?thesis using send_alert_email_log[of e subj body s1 "fst p" "snd p"]
    by (cases p) simp
qed

lemma trigger_alarm_log: "prefix (log_file s) (log_file (trigger_alarm e a v m s))"
proof -
  define s2 where "s2 =
     (if upper (resource a) = ''LOGS''
      then log_event (''Security_Alert_Log_Count_'' @ str_num (float_str s) v
                        @ ''_Exceeds_'' @ str_num (float_str s) (threshold a)) ''SECURITY'' s
      else log_event (upper (resource a) @ ''_usage_alarm_triggered_''
                        @ str_num (float_str s) (threshold a) @ ''_percent'') ''ALARM'' s)
     \<lparr>triggered_alarm := Some \<lparr>rule = a, current_value = v, triggered_at = now_iso e\<rparr>\<rparr>"
  have s2: "prefix (log_file s) (log_file s2)"
    by (simp add: s2_def log_event_def)
  have "\<exists>subj body. trigger_alarm e a v m s =
          (if upper (resource a) = ''LOGS'' \<or> alert_any e
           then (case send_alert_email e subj body s2 of
                   Inl x \<Rightarrow> log_event (''Failed_to_send_alert_notification:_'' @ x) ''ERROR'' s2
                 | Inr (ok, s3) \<Rightarrow> s3)
           else s2)"
    unfolding trigger_alarm_def Let_def s2_def by blast
  then obtain subj body where eq: "trigger_alarm e a v m s =
          (if upper (resource a) = ''LOGS'' \<or> alert_any e
           then (case send_alert_email e subj body s2 of
                   Inl x \<Rightarrow> log_event (''Failed_to_send_alert_notification:_'' @ x) ''ERROR'' s2
                 | Inr (ok, s3) \<Rightarrow> s3)
           else s2)"
    by blast
  show ?thesis
  proof (cases "upper (resource a) = ''LOGS'' \<or> alert_any e")
    case True
    have "prefix (log_file s2) (log_file (trigger_alarm e a v m s))"
      using True mail_step_log[of s2 e subj body] unfolding eq by simp
    with s2 show ?thesis by (rule prefix_order.trans)
  next
    case False
    then show ?thesis using s2 unfolding eq by simp
  qed
qed

lemma check_resource_log: "prefix (log_file s) (log_file (check_resource e u n r s))"
  using trigger_alarm_log by (simp add: check_resource_def Let_def split: list.splits)

lemma fold_check_log: "prefix (log_file s) (log_file (fold (check_resource e u n) rs s))"
proof (induction rs arbitrary: s)
  case Nil
  then show ?case by simp
next
  case (Cons r rs)
  have "prefix (log_file s) (log_file (check_resource e u n r s))"
    by (rule check_resource_log)
  moreover have "prefix (log_file (check_resource e u n r s))
                   (log_file (fold (check_resource e u n) rs (check_resource e u n r s)))"
    by (rule Cons.IH)
  ultimately show ?case using prefix_order.trans by simp
qed

lemma tick_alarms [simp]: "alarms (tick e s) = alarms s"
proof -
  obtain u s1 where g: "get_system_usage (sample e) s = (u, s1)"
    by (cases "get_system_usage (sample e) s")
  have "alarms s1 = alarms s"
    using get_system_usage_fields(1)[of "sample e" s] g by simp
  then show ?thesis
    by (simp add: tick_def evaluate_def g Let_def)
qed

lemma failed_sample_usage:
  "sample e = Inl x \<Longrightarrow>
     get_system_usage (sample e) s
       = (zero_usage, log_event (''Failed_to_retrieve_system_metrics:_'' @ x) ''ERROR'' s)"
  by (simp add: get_system_usage_def)

lemma failed_sample_logged:
  assumes "sample e = Inl x" and "log_writable s"
  shows "prefix (log_file s @ log_entry ''ERROR'' (''Failed_to_retrieve_system_metrics:_'' @ x))
           (log_file (tick e s))"
proof -
  let ?s1 = "log_event (''Failed_to_retrieve_system_metrics:_'' @ x) ''ERROR'' s"
  have "log_file ?s1 = log_file s @ log_entry ''ERROR'' (''Failed_to_retrieve_system_metrics:_'' @ x)"
    using assms(2) by (simp add: log_event_def)
  moreover have "prefix (log_file ?s1) (log_file (tick e s))"
    by (simp add: tick_def evaluate_def failed_sample_usage[OF assms(1)] Let_def fold_check_log)
  ultimately show ?thesis by simp
qed

lemma failed_sample_reading:
  assumes "sample e = Inl x" and "r \<in> {''cpu'', ''ram'', ''disk''}"
  shows "reading e s r = FloatV 0"
  using assms by (auto simp: reading_def get_system_usage_def usage_get_def zero_usage_def)

lemma failed_sample_no_percent_breach:
  assumes "sample e = Inl x" and "r \<in> {''cpu'', ''ram'', ''disk''}"
    and "\<forall>a \<in> set (alarms s). resource a = r \<longrightarrow> IntV 0 < threshold a"
  shows "breaching e s r = []"
  using assms(3) unfolding breaching_def failed_sample_reading[OF assms(1,2)] filter_empty_conv
  by (auto simp: le_num_def less_pynum_def)

text \<open>
  C5, as claimed: a tick whose sampling call fails skips the evaluation and leaves the
  triggered alarm as it was. It fails on the code: \<^verbatim>\<open>get_system_usage\<close> catches the exception
  itself, logs it and returns zero readings, and the pass goes on to evaluate. With a logs
  rule of threshold 6 and five lines in the log, the line logged for the failure is the
  sixth, and the pass of the failed sample triggers the rule.
\<close>

theorem failed_sample_pass_counterexample:
  "sample (demo_env 10 (Inl ''psutil failed'')) = Inl ''psutil failed''
   \<and> triggered_alarm (demo_state [logs6] None demo_log) = None
   \<and> triggered_alarm (run_pass (demo_env 10 (Inl ''psutil failed'')) (demo_state [logs6] None demo_log))
       = Some \<lparr>rule = logs6, current_value = IntV 6, triggered_at = ''2025-01-15T10:30:00''\<rparr>"
  by code_simp

text \<open>
  The log count is the number of lines of the file: when the text of the exception holds a
  line feed, the entry of the failure takes two lines, and a logs rule of threshold 7 is
  triggered from five lines.
\<close>

lemma failed_sample_two_lines:
  "log_entry ''ERROR'' (''Failed_to_retrieve_system_metrics:_'' @ ''a'' @ [CHR 0x0A] @ ''b'')
     = [''[ERROR] Failed_to_retrieve_system_metrics:_a'', ''b'']
   \<and> triggered_alarm (run_pass (demo_env 10 (Inl (''a'' @ [CHR 0x0A] @ ''b'')))
                         (demo_state [logs7] None demo_log))
       = Some \<lparr>rule = logs7, current_value = IntV 7, triggered_at = ''2025-01-15T10:30:00''\<rparr>"
  by code_simp

text \<open>
  C5, amended. In a pass of the monitor loop whose sampling call fails, \<^verbatim>\<open>get_system_usage\<close>
  appends the entry of the failure (category ERROR) to the log, when the log can be written,
  and returns the readings cpu = ram = disk = 0; the alarm list is unchanged by the pass.
  The failure itself raises nothing, and the evaluation is not skipped: when
  \<^verbatim>\<open>get_log_history\<close> returns, the \<^verbatim>\<open>try\<close> block runs to its end and the pass is an ordinary
  tick on the zero readings and the number of lines of the log (the lines of the entry just
  written among them). In such a pass the triggered alarm is unchanged when every cpu, ram
  and disk rule has a threshold above 0 and no logs rule breaches, and when a logs rule
  breaches, a breaching logs rule becomes the triggered alarm. When \<^verbatim>\<open>get_log_history\<close>
  raises, the exception leaves the \<^verbatim>\<open>try\<close> block and is caught by the handler of the loop:
  the evaluation is skipped, the triggered alarm is unchanged, and the handler appends the
  entry \<^verbatim>\<open>Monitor_Thread_Loop_Error\<close> (category CRITICAL) after that of the failed sample.
  In both cases the pass ends in a state from which the loop goes on.
\<close>

theorem failed_sample_pass:
  assumes "sample e = Inl x"
  shows "(log_writable s \<longrightarrow>
            prefix (log_file s @ log_entry ''ERROR'' (''Failed_to_retrieve_system_metrics:_'' @ x))
              (log_file (run_pass e s)))
         \<and> reading e s ''cpu'' = FloatV 0 \<and> reading e s ''ram'' = FloatV 0
         \<and> reading e s ''disk'' = FloatV 0
         \<and> alarms (run_pass e s) = alarms s
         \<and> (history_error e = None \<longrightarrow>
              try_block e s = Inr (tick e s) \<and> run_pass e s = tick e s
              \<and> reading e s ''logs'' = IntV (int (length (log_lines e
                    (log_event (''Failed_to_retrieve_system_metrics:_'' @ x) ''ERROR'' s))))
              \<and> ((\<forall>a \<in> set (alarms s). resource a \<noteq> ''logs'' \<longrightarrow> IntV 0 < threshold a)
                   \<and> breaching e s ''logs'' = []
                  \<longrightarrow> triggered_alarm (run_pass e s) = triggered_alarm s)
              \<and> (breaching e s ''logs'' \<noteq> []
                  \<longrightarrow> (\<exists>w \<in> set (breaching e s ''logs'').
                         triggered_alarm (run_pass e s)
                           = Some \<lparr>rule = w, current_value = reading e s ''logs'',
                                    triggered_at = now_iso e\<rparr>)))
         \<and> (\<forall>cls. history_error e = Some cls \<longrightarrow>
              try_block e s
                = Inl (cls, log_event (''Failed_to_retrieve_system_metrics:_'' @ x) ''ERROR'' s)
              \<and> run_pass e s
                  = log_event (''Monitor_Thread_Loop_Error:_'' @ cls) ''CRITICAL''
                      (log_event (''Failed_to_retrieve_system_metrics:_'' @ x) ''ERROR'' s)
              \<and> triggered_alarm (run_pass e s) = triggered_alarm s
              \<and> (log_writable s \<longrightarrow>
                    log_file (run_pass e s)
                      = log_file s
                        @ log_entry ''ERROR'' (''Failed_to_retrieve_system_metrics:_'' @ x)
                        @ log_entry ''CRITICAL'' (''Monitor_Thread_Loop_Error:_'' @ cls)))"
proof -
  let ?s1 = "log_event (''Failed_to_retrieve_system_metrics:_'' @ x) ''ERROR'' s"
  have g: "get_system_usage (sample e) s = (zero_usage, ?s1)"
    by (rule failed_sample_usage[OF assms])
  have handler: "run_pass e s = log_event (''Monitor_Thread_Loop_Error:_'' @ cls) ''CRITICAL'' ?s1"
    if "history_error e = Some cls" for cls
    using run_pass_handler[OF that, of s] g by simp
  have a: "log_writable s \<longrightarrow>
            prefix (log_file s @ log_entry ''ERROR'' (''Failed_to_retrieve_system_metrics:_'' @ x))
              (log_file (run_pass e s))"
  proof
    assume w: "log_writable s"
    show "prefix (log_file s @ log_entry ''ERROR'' (''Failed_to_retrieve_system_metrics:_'' @ x))
              (log_file (run_pass e s))"
    proof (cases "history_error e")
      case None
      then show ?thesis using failed_sample_logged[OF assms w] by (simp add: run_pass_tick)
    next
      case (Some cls)
      then show ?thesis using w by (simp add: handler log_event_def)
    qed
  qed
  have b: "reading e s ''cpu'' = FloatV 0" "reading e s ''ram'' = FloatV 0"
    "reading e s ''disk'' = FloatV 0"
    using failed_sample_reading[OF assms] by simp_all
  have c: "alarms (run_pass e s) = alarms s"
  proof (cases "history_error e")
    case None
    then show ?thesis by (simp add: run_pass_tick)
  next
    case (Some cls)
    then show ?thesis by (simp add: handler)
  qed
  have d: "history_error e = None \<longrightarrow>
              try_block e s = Inr (tick e s) \<and> run_pass e s = tick e s
              \<and> reading e s ''logs'' = IntV (int (length (log_lines e ?s1)))
              \<and> ((\<forall>a \<in> set (alarms s). resource a \<noteq> ''logs'' \<longrightarrow> IntV 0 < threshold a)
                   \<and> breaching e s ''logs'' = []
                  \<longrightarrow> triggered_alarm (run_pass e s) = triggered_alarm s)
              \<and> (breaching e s ''logs'' \<noteq> []
                  \<longrightarrow> (\<exists>w \<in> set (breaching e s ''logs'').
                         triggered_alarm (run_pass e s)
                           = Some \<lparr>rule = w, current_value = reading e s ''logs'',
                                    triggered_at = now_iso e\<rparr>))"
  proof
    assume n: "history_error e = None"
    have rt: "run_pass e s = tick e s" by (rule run_pass_tick[OF n])
    have d1: "try_block e s = Inr (tick e s)" by (rule try_block_returns[OF n])
    have d2: "reading e s ''logs'' = IntV (int (length (log_lines e ?s1)))"
      by (simp add: reading_def g)
    have d3: "triggered_alarm (run_pass e s) = triggered_alarm s"
      if h: "(\<forall>a \<in> set (alarms s). resource a \<noteq> ''logs'' \<longrightarrow> IntV 0 < threshold a)
              \<and> breaching e s ''logs'' = []"
    proof -
      have "breaching e s r = []" if "r \<in> {''cpu'', ''ram'', ''disk''}" for r
      proof (rule failed_sample_no_percent_breach[OF assms that])
        show "\<forall>a \<in> set (alarms s). resource a = r \<longrightarrow> IntV 0 < threshold a"
          using h that by auto
      qed
      then have "\<forall>r \<in> set AVAILABLE_RESOURCES. breaching e s r = []"
        using h by (auto simp: AVAILABLE_RESOURCES_def)
      then show ?thesis unfolding rt by (rule tick_no_breach_unchanged)
    qed
    have d4: "\<exists>w \<in> set (breaching e s ''logs'').
                 triggered_alarm (run_pass e s)
                   = Some \<lparr>rule = w, current_value = reading e s ''logs'', triggered_at = now_iso e\<rparr>"
      if bl: "breaching e s ''logs'' \<noteq> []"
    proof -
      let ?f = "winner e (tick_usage e s) (tick_log_count e s) (alarms s)"
      from bl obtain t where t: "?f ''logs'' = Some t"
        using winner_None_iff[of e s "''logs''"] by (cases "?f ''logs''") auto
      have "triggered_alarm (tick e s) = Some t"
        by (simp add: tick_triggered AVAILABLE_RESOURCES_def t)
      moreover have "t = \<lparr>rule = rule t, current_value = reading e s ''logs'', triggered_at = now_iso e\<rparr>"
        using winner_Some[OF t] by simp
      moreover have "rule t \<in> set (breaching e s ''logs'')"
        using winner_Some[OF t] by simp
      ultimately show ?thesis unfolding rt by metis
    qed
    show "try_block e s = Inr (tick e s) \<and> run_pass e s = tick e s
              \<and> reading e s ''logs'' = IntV (int (length (log_lines e ?s1)))
              \<and> ((\<forall>a \<in> set (alarms s). resource a \<noteq> ''logs'' \<longrightarrow> IntV 0 < threshold a)
                   \<and> breaching e s ''logs'' = []
                  \<longrightarrow> triggered_alarm (run_pass e s) = triggered_alarm s)
              \<and> (breaching e s ''logs'' \<noteq> []
                  \<longrightarrow> (\<exists>w \<in> set (breaching e s ''logs'').
                         triggered_alarm (run_pass e s)
                           = Some \<lparr>rule = w, current_value = reading e s ''logs'',
                                    triggered_at = now_iso e\<rparr>))"
      using d1 rt d2 d3 d4 by blast
  qed
  have f: "\<forall>cls. history_error e = Some cls \<longrightarrow>
              try_block e s = Inl (cls, ?s1)
              \<and> run_pass e s = log_event (''Monitor_Thread_Loop_Error:_'' @ cls) ''CRITICAL'' ?s1
              \<and> triggered_alarm (run_pass e s) = triggered_alarm s
              \<and> (log_writable s \<longrightarrow>
                    log_file (run_pass e s)
                      = log_file s
                        @ log_entry ''ERROR'' (''Failed_to_retrieve_system_metrics:_'' @ x)
                        @ log_entry ''CRITICAL'' (''Monitor_Thread_Loop_Error:_'' @ cls))"
  proof (intro allI impI)
    fix cls assume h: "history_error e = Some cls"
    have f1: "try_block e s = Inl (cls, ?s1)"
      using try_block_raises[OF h, of s] g by simp
    have f2: "run_pass e s = log_event (''Monitor_Thread_Loop_Error:_'' @ cls) ''CRITICAL'' ?s1"
      by (rule handler[OF h])
    have f3: "triggered_alarm (run_pass e s) = triggered_alarm s"
      by (simp add: f2)
    have f4: "log_writable s \<longrightarrow>
                log_file (run_pass e s)
                  = log_file s
                    @ log_entry ''ERROR'' (''Failed_to_retrieve_system_metrics:_'' @ x)
                    @ log_entry ''CRITICAL'' (''Monitor_Thread_Loop_Error:_'' @ cls)"
      by (simp add: f2 log_event_def)
    show "try_block e s = Inl (cls, ?s1)
              \<and> run_pass e s = log_event (''Monitor_Thread_Loop_Error:_'' @ cls) ''CRITICAL'' ?s1
              \<and> triggered_alarm (run_pass e s) = triggered_alarm s
              \<and> (log_writable s \<longrightarrow>
                    log_file (run_pass e s)
                      = log_file s
                        @ log_entry ''ERROR'' (''Failed_to_retrieve_system_metrics:_'' @ x)
                        @ log_entry ''CRITICAL'' (''Monitor_Thread_Loop_Error:_'' @ cls))"
      using f1 f2 f3 f4 by blast
  qed
  show ?thesis using a b c d f by blast
qed

theorem failed_sample_pass_witness:
  "sample (demo_env 10 (Inl ''psutil failed'')) = Inl ''psutil failed''
   \<and> history_error (demo_env 10 (Inl ''psutil failed'')) = None
   \<and> log_writable (demo_state [cpu85] (Some stale) [])
   \<and> prefix [''[ERROR] Failed_to_retrieve_system_metrics:_psutil_failed'']
        (log_file (run_pass (demo_env 10 (Inl ''psutil failed'')) (demo_state [cpu85] (Some stale) [])))
   \<and> breaching (demo_env 10 (Inl ''psutil failed'')) (demo_state [cpu85] (Some stale) []) ''logs'' = []
   \<and> triggered_alarm (run_pass (demo_env 10 (Inl ''psutil failed'')) (demo_state [cpu85] (Some stale) []))
       = Some stale
   \<and> breaching (demo_env 10 (Inl ''psutil failed'')) (demo_state [logs6] None demo_log) ''logs'' = [logs6]
   \<and> triggered_alarm (run_pass (demo_env 10 (Inl ''psutil failed'')) (demo_state [logs6] None demo_log))
       = Some \<lparr>rule = logs6, current_value = IntV 6, triggered_at = ''2025-01-15T10:30:00''\<rparr>
   \<and> sample raising_env = Inl ''psutil failed''
   \<and> history_error raising_env = Some ''FileExistsError''
   \<and> triggered_alarm (run_pass raising_env (demo_state [logs6] None demo_log)) = None
   \<and> log_file (run_pass raising_env (demo_state [cpu85] (Some stale) []))
       = [''[ERROR] Failed_to_retrieve_system_metrics:_psutil_failed'',
          ''[CRITICAL] Monitor_Thread_Loop_Error:_FileExistsError'']"
proof -
  let ?e = "demo_env 10 (Inl ''psutil failed'')"
  let ?s = "demo_state [cpu85] (Some stale) []"
  let ?s' = "demo_state [logs6] None demo_log"
  have smp: "sample ?e = Inl ''psutil failed''" by (simp add: demo_env_def)
  have hn: "history_error ?e = None" by (simp add: demo_env_def)
  have w: "log_writable ?s" by (simp add: demo_state_def)
  have lf: "log_file ?s = []" by (simp add: demo_state_def)
  have thr: "\<forall>a \<in> set (alarms ?s). resource a \<noteq> ''logs'' \<longrightarrow> IntV 0 < threshold a"
    by (simp add: demo demo_alarms less_pynum_def)
  have nl: "breaching ?e ?s ''logs'' = []" by code_simp
  have prev: "triggered_alarm ?s = Some stale" by (simp add: demo_state_def)
  have prev': "triggered_alarm ?s' = None" by (simp add: demo_state_def)
  have ent: "log_entry ''ERROR'' (''Failed_to_retrieve_system_metrics:_'' @ ''psutil failed'')
           = [''[ERROR] Failed_to_retrieve_system_metrics:_psutil_failed'']"
    by code_simp
  have crit: "log_entry ''CRITICAL'' (''Monitor_Thread_Loop_Error:_'' @ ''FileExistsError'')
           = [''[CRITICAL] Monitor_Thread_Loop_Error:_FileExistsError'']"
    by code_simp
  have bl: "breaching ?e ?s' ''logs'' = [logs6]" by code_simp
  have rl: "reading ?e ?s' ''logs'' = IntV 6" by code_simp
  have now: "now_iso ?e = ''2025-01-15T10:30:00''" by (simp add: demo_env_def)
  have smp_r: "sample raising_env = Inl ''psutil failed''"
    by (simp add: raising_env_def demo_env_def)
  have hr: "history_error raising_env = Some ''FileExistsError''"
    by (simp add: raising_env_def demo_env_def)
  note a = failed_sample_pass[OF smp, of ?s]
  note b = failed_sample_pass[OF smp, of ?s']
  note c = failed_sample_pass[OF smp_r, of ?s]
  note d = failed_sample_pass[OF smp_r, of ?s']
  have r1: "prefix [''[ERROR] Failed_to_retrieve_system_metrics:_psutil_failed'']
              (log_file (run_pass ?e ?s))"
  proof -
    from a have "log_writable ?s \<longrightarrow>
        prefix (log_file ?s @ log_entry ''ERROR'' (''Failed_to_retrieve_system_metrics:_'' @ ''psutil failed''))
          (log_file (run_pass ?e ?s))"
      by (rule conjunct1)
    with w show ?thesis unfolding lf ent by simp
  qed
  have r2: "triggered_alarm (run_pass ?e ?s) = Some stale"
  proof -
    from a hn have "(\<forall>a \<in> set (alarms ?s). resource a \<noteq> ''logs'' \<longrightarrow> IntV 0 < threshold a)
                     \<and> breaching ?e ?s ''logs'' = []
                    \<longrightarrow> triggered_alarm (run_pass ?e ?s) = triggered_alarm ?s"
      by blast
    with thr nl have "triggered_alarm (run_pass ?e ?s) = triggered_alarm ?s" by blast
    then show ?thesis unfolding prev .
  qed
  have r3: "triggered_alarm (run_pass ?e ?s')
       = Some \<lparr>rule = logs6, current_value = IntV 6, triggered_at = ''2025-01-15T10:30:00''\<rparr>"
  proof -
    from b hn have "breaching ?e ?s' ''logs'' \<noteq> []
                    \<longrightarrow> (\<exists>w \<in> set (breaching ?e ?s' ''logs'').
                           triggered_alarm (run_pass ?e ?s')
                             = Some \<lparr>rule = w, current_value = reading ?e ?s' ''logs'',
                                      triggered_at = now_iso ?e\<rparr>)"
      by blast
    then have "\<exists>w \<in> set [logs6]. triggered_alarm (run_pass ?e ?s')
                 = Some \<lparr>rule = w, current_value = IntV 6, triggered_at = ''2025-01-15T10:30:00''\<rparr>"
      unfolding bl rl now by simp
    then show ?thesis by simp
  qed
  have r4: "triggered_alarm (run_pass raising_env ?s') = None"
  proof -
    from d hr have "triggered_alarm (run_pass raising_env ?s') = triggered_alarm ?s'"
      by blast
    then show ?thesis unfolding prev' .
  qed
  have r5: "log_file (run_pass raising_env ?s)
       = [''[ERROR] Failed_to_retrieve_system_metrics:_psutil_failed'',
          ''[CRITICAL] Monitor_Thread_Loop_Error:_FileExistsError'']"
  proof -
    from c hr have "log_writable ?s \<longrightarrow>
        log_file (run_pass raising_env ?s)
          = log_file ?s
            @ log_entry ''ERROR'' (''Failed_to_retrieve_system_metrics:_'' @ ''psutil failed'')
            @ log_entry ''CRITICAL'' (''Monitor_Thread_Loop_Error:_'' @ ''FileExistsError'')"
      by blast
    with w show ?thesis unfolding lf ent crit by simp
  qed
  show ?thesis using smp hn w r1 nl r2 bl r3 smp_r hr r4 r5 by blast
qed

section \<open>Adding an alarm\<close>

lemma save_alarms_fields [simp]:
  "alarms (save_alarms xs s) = alarms s"
  "triggered_alarm (save_alarms xs s) = triggered_alarm s"
  "alarms_file (save_alarms xs s) = (case alarms_write_error s of None \<Rightarrow> xs | Some c \<Rightarrow> alarms_file s)"
  by (auto simp: save_alarms_def split: option.splits)





lemma valid_threshold_check:
  "valid_threshold r thr \<longleftrightarrow> (\<exists>t. thr = PInt t \<and> check_threshold r thr = Inr (IntV t))"
  by (cases thr) (auto simp: valid_threshold_def check_threshold_def le_num_def)


lemma add_alarm_ok_eq:
  assumes "shift_args res thr nm = (nm', res', thr')"
      and "in_resources res'" and "check_threshold (the_str res') thr' = Inr t"
      and "in_periods period"
      and "stored = (if truthy nm' then nm'
                     else PStr (if the_str res' \<noteq> ''logs''
                                then upper (the_str res') @ '' alarm '' @ str_num (float_str s) t @ ''%''
                                else ''LOGS alarm '' @ str_num (float_str s) t))"
  shows "add_alarm uid res thr nm period s =
     (Inr uid,
      log_event (''Alarm_added:_'' @ str_val (float_str s) stored @ ''_''
                 @ the_str res' @ ''_'' @ str_num (float_str s) t) ''ALARM_CONFIG''
        (save_alarms
           (alarms s @ [\<lparr>alarm_id = uid, name = stored, resource = the_str res', threshold = t,
                           active_period = Some (the_str period)\<rparr>])
           (s\<lparr>alarms := alarms s @ [\<lparr>alarm_id = uid, name = stored, resource = the_str res',
                           threshold = t, active_period = Some (the_str period)\<rparr>]\<rparr>)))"
  unfolding add_alarm_def assms(1) assms(5)
  using assms(2,4) by (simp add: Let_def assms(3))

lemma add_alarm_ok:
  assumes "shift_args res thr nm = (nm', res', thr')"
      and "in_resources res'" and "check_threshold (the_str res') thr' = Inr t"
      and "in_periods period"
      and "stored = (if truthy nm' then nm'
                     else PStr (if the_str res' \<noteq> ''logs''
                                then upper (the_str res') @ '' alarm '' @ str_num (float_str s) t @ ''%''
                                else ''LOGS alarm '' @ str_num (float_str s) t))"
  shows "fst (add_alarm uid res thr nm period s) = Inr uid"
    and "alarms (snd (add_alarm uid res thr nm period s))
         = alarms s @ [\<lparr>alarm_id = uid, name = stored, resource = the_str res', threshold = t,
                         active_period = Some (the_str period)\<rparr>]"
    and "alarms_file (snd (add_alarm uid res thr nm period s))
         = (case alarms_write_error s of
              None \<Rightarrow> alarms (snd (add_alarm uid res thr nm period s))
            | Some c \<Rightarrow> alarms_file s)"
    and "triggered_alarm (snd (add_alarm uid res thr nm period s)) = triggered_alarm s"
  unfolding add_alarm_ok_eq[OF assms] by (simp_all split: option.splits)


lemma in_get_alarms: "a \<in> set (get_alarms s) \<longleftrightarrow> a \<in> set (alarms s)"
  by (simp add: get_alarms_def)








section \<open>The arguments of add_alarm in the order name, resource, threshold\<close>

text \<open>
  C10. When the first argument \<open>a\<close> of \<^verbatim>\<open>add_alarm(a, b, c)\<close> is no valid resource and the
  second, \<open>b\<close>, is a string naming one, the arguments are taken as name \<open>a\<close>, resource \<open>b\<close>
  and threshold \<open>c\<close>: the call does exactly what \<^verbatim>\<open>add_alarm(b, c, a)\<close> does, and with a
  valid threshold and period it appends the rule with resource \<open>b\<close>, threshold \<open>c\<close> and the
  name \<open>a\<close> (the derived name when \<open>a\<close> is empty). In the example
  \<^verbatim>\<open>add_alarm('My alarm', 'cpu', 85)\<close> creates the rule named My alarm for cpu at 85, as
  \<^verbatim>\<open>add_alarm('cpu', 85, 'My alarm')\<close> does.
\<close>

theorem add_alarm_argument_shift:
  assumes "\<not> in_resources a" and "b = PStr r" and "r \<in> set AVAILABLE_RESOURCES"
  shows "shift_args a b c = (a, b, c)
       \<and> add_alarm uid a b c p s = add_alarm uid b c a p s
       \<and> (valid_threshold r c \<and> in_periods p \<longrightarrow>
            (\<exists>t. c = PInt t
                 \<and> fst (add_alarm uid a b c p s) = Inr uid
                 \<and> alarms (snd (add_alarm uid a b c p s))
                     = alarms s @ [\<lparr>alarm_id = uid, name = new_alarm_name a r t, resource = r,
                                     threshold = IntV t, active_period = Some (the_str p)\<rparr>]))"
proof (intro conjI impI)
  have b: "in_resources b" "is_str b"
    using assms(2,3) by simp_all
  show sh: "shift_args a b c = (a, b, c)"
    using assms(1) b by (simp add: shift_args_def)
  have sh': "shift_args b c a = (a, b, c)"
    using b by (simp add: shift_args_def)
  show "add_alarm uid a b c p s = add_alarm uid b c a p s"
    unfolding add_alarm_def sh sh' ..
  assume ok: "valid_threshold r c \<and> in_periods p"
  then obtain t where t: "c = PInt t" and ct: "check_threshold r c = Inr (IntV t)"
    using valid_threshold_check by blast
  have ct': "check_threshold (the_str b) c = Inr (IntV t)"
    using ct assms(2) by simp
  have per: "in_periods p" using ok by simp
  have nm: "new_alarm_name a r t
      = (if truthy a then a
         else PStr (if the_str b \<noteq> ''logs''
                    then upper (the_str b) @ '' alarm '' @ str_num (float_str s) (IntV t) @ ''%''
                    else ''LOGS alarm '' @ str_num (float_str s) (IntV t)))"
    using assms(2) by (simp add: new_alarm_name_def)
  note r = add_alarm_ok[OF sh b(1) ct' per nm, of uid]
  show "\<exists>t. c = PInt t
           \<and> fst (add_alarm uid a b c p s) = Inr uid
           \<and> alarms (snd (add_alarm uid a b c p s))
               = alarms s @ [\<lparr>alarm_id = uid, name = new_alarm_name a r t, resource = r,
                               threshold = IntV t, active_period = Some (the_str p)\<rparr>]"
    using r(1,2) t assms(2) by (intro exI[of _ t]) simp
qed

theorem add_alarm_argument_shift_witness:
  "\<not> in_resources (PStr ''My alarm'') \<and> ''cpu'' \<in> set AVAILABLE_RESOURCES
   \<and> valid_threshold ''cpu'' (PInt 85) \<and> in_periods (PStr ''always'')
   \<and> add_alarm ''uuid-1'' (PStr ''My alarm'') (PStr ''cpu'') (PInt 85) (PStr ''always'') (demo_state [] None [])
     = add_alarm ''uuid-1'' (PStr ''cpu'') (PInt 85) (PStr ''My alarm'') (PStr ''always'') (demo_state [] None [])
   \<and> fst (add_alarm ''uuid-1'' (PStr ''My alarm'') (PStr ''cpu'') (PInt 85) (PStr ''always'')
            (demo_state [] None [])) = Inr ''uuid-1''
   \<and> alarms (snd (add_alarm ''uuid-1'' (PStr ''My alarm'') (PStr ''cpu'') (PInt 85) (PStr ''always'')
            (demo_state [] None [])))
     = [\<lparr>alarm_id = ''uuid-1'', name = PStr ''My alarm'', resource = ''cpu'', threshold = IntV 85,
         active_period = Some ''always''\<rparr>]"
proof -
  let ?s = "demo_state [] None []"
  let ?l = "add_alarm ''uuid-1'' (PStr ''My alarm'') (PStr ''cpu'') (PInt 85) (PStr ''always'') ?s"
  have a: "\<not> in_resources (PStr ''My alarm'')" and r: "''cpu'' \<in> set AVAILABLE_RESOURCES"
    by (simp_all add: AVAILABLE_RESOURCES_def)
  have v: "valid_threshold ''cpu'' (PInt 85) \<and> in_periods (PStr ''always'')"
    by (simp add: valid_threshold_def valid_periods_def)
  note th = add_alarm_argument_shift[OF a refl r, of "PInt 85" "''uuid-1''" "PStr ''always''" ?s]
  have eq: "?l = add_alarm ''uuid-1'' (PStr ''cpu'') (PInt 85) (PStr ''My alarm'') (PStr ''always'') ?s"
    using th by blast
  have "\<exists>t. PInt 85 = PInt t \<and> fst ?l = Inr ''uuid-1''
          \<and> alarms (snd ?l) = alarms ?s @ [\<lparr>alarm_id = ''uuid-1'',
                 name = new_alarm_name (PStr ''My alarm'') ''cpu'' t, resource = ''cpu'',
                 threshold = IntV t, active_period = Some (the_str (PStr ''always''))\<rparr>]"
    using th v by blast
  then have res: "fst ?l = Inr ''uuid-1''"
    "alarms (snd ?l) = alarms ?s @ [\<lparr>alarm_id = ''uuid-1'',
                 name = new_alarm_name (PStr ''My alarm'') ''cpu'' 85, resource = ''cpu'',
                 threshold = IntV 85, active_period = Some (the_str (PStr ''always''))\<rparr>]"
    by auto
  have nm: "new_alarm_name (PStr ''My alarm'') ''cpu'' 85 = PStr ''My alarm''"
    by (simp add: new_alarm_name_def)
  have st: "alarms ?s = []" by (simp add: demo_state_def)
  show ?thesis
    using a r v eq res nm st by simp
qed

section \<open>Removing an alarm\<close>

lemma remove_alarm_absent:
  assumes "\<forall>a \<in> set (alarms s). PStr (alarm_id a) \<noteq> i"
  shows "remove_alarm i s = (False, s)"
proof -
  have "[a \<leftarrow> alarms s. PStr (alarm_id a) \<noteq> i] = alarms s"
    using assms by (simp add: filter_id_conv)
  then show ?thesis by (simp add: remove_alarm_def Let_def)
qed

lemma remove_alarm_present:
  assumes "\<exists>a \<in> set (alarms s). PStr (alarm_id a) = i"
  shows "remove_alarm i s =
     (True,
      (let s3 = log_event (''Alarm_removed:_'' @ str_val (float_str s) i) ''ALARM_CONFIG''
                  (save_alarms [a \<leftarrow> alarms s. PStr (alarm_id a) \<noteq> i]
                     (s\<lparr>alarms := [a \<leftarrow> alarms s. PStr (alarm_id a) \<noteq> i]\<rparr>))
       in case triggered_alarm s3 of
            Some t \<Rightarrow> if PStr (alarm_id (rule t)) = i then s3\<lparr>triggered_alarm := None\<rparr> else s3
          | None \<Rightarrow> s3))"
proof -
  from assms obtain a where "a \<in> set (alarms s)" "\<not> PStr (alarm_id a) \<noteq> i" by auto
  then have "length [a \<leftarrow> alarms s. PStr (alarm_id a) \<noteq> i] < length (alarms s)"
    by (rule length_filter_less)
  then show ?thesis by (simp add: remove_alarm_def Let_def)
qed

text \<open>
  C7. \<^verbatim>\<open>remove_alarm(id)\<close>: when no stored rule has the identifier, the result is false and
  the whole state, the alarm list and the alarms file included, is as before. When a rule
  has it, the result is true, the rules with that identifier are gone from the list, the
  list is written to the alarms file (when the file can be written), and a triggered alarm
  with that identifier is cleared, any other being kept.
\<close>

theorem remove_alarm_effect:
  "((\<forall>a \<in> set (alarms s). PStr (alarm_id a) \<noteq> i) \<longrightarrow> remove_alarm i s = (False, s))
   \<and> ((\<exists>a \<in> set (alarms s). PStr (alarm_id a) = i) \<longrightarrow>
        fst (remove_alarm i s) = True
        \<and> alarms (snd (remove_alarm i s)) = [a \<leftarrow> alarms s. PStr (alarm_id a) \<noteq> i]
        \<and> (\<forall>a \<in> set (get_alarms (snd (remove_alarm i s))). PStr (alarm_id a) \<noteq> i)
        \<and> (alarms_write_error s = None \<longrightarrow>
              alarms_file (snd (remove_alarm i s)) = alarms (snd (remove_alarm i s)))
        \<and> (\<forall>t. triggered_alarm s = Some t \<longrightarrow>
              get_triggered_alarm (snd (remove_alarm i s))
                = (if PStr (alarm_id (rule t)) = i then None else Some t)))"
proof (intro conjI impI)
  assume "\<forall>a \<in> set (alarms s). PStr (alarm_id a) \<noteq> i"
  then show "remove_alarm i s = (False, s)" by (rule remove_alarm_absent)
next
  assume p: "\<exists>a \<in> set (alarms s). PStr (alarm_id a) = i"
  note eq = remove_alarm_present[OF p]
  show "fst (remove_alarm i s) = True" by (simp add: eq)
  show al: "alarms (snd (remove_alarm i s)) = [a \<leftarrow> alarms s. PStr (alarm_id a) \<noteq> i]"
    by (simp add: eq Let_def split: option.splits)
  show "\<forall>a \<in> set (get_alarms (snd (remove_alarm i s))). PStr (alarm_id a) \<noteq> i"
    by (simp add: in_get_alarms al)
  show "\<forall>t. triggered_alarm s = Some t \<longrightarrow>
              get_triggered_alarm (snd (remove_alarm i s))
                = (if PStr (alarm_id (rule t)) = i then None else Some t)"
    by (simp add: eq Let_def get_triggered_alarm_def)
next
  assume p: "\<exists>a \<in> set (alarms s). PStr (alarm_id a) = i" and w: "alarms_write_error s = None"
  note eq = remove_alarm_present[OF p]
  show "alarms_file (snd (remove_alarm i s)) = alarms (snd (remove_alarm i s))"
    using w by (simp add: eq Let_def split: option.splits)
qed

theorem remove_alarm_effect_witness:
  "(\<exists>a \<in> set (alarms (demo_state [cpu85, logs3] (Some stale) demo_log)). PStr (alarm_id a) = PStr ''id-cpu-85'')
   \<and> alarm_id (rule stale) = ''id-cpu-85''
   \<and> get_triggered_alarm (demo_state [cpu85, logs3] (Some stale) demo_log) = Some stale
   \<and> fst (remove_alarm (PStr ''id-cpu-85'') (demo_state [cpu85, logs3] (Some stale) demo_log)) = True
   \<and> alarms (snd (remove_alarm (PStr ''id-cpu-85'') (demo_state [cpu85, logs3] (Some stale) demo_log)))
       = [logs3]
   \<and> alarms_file (snd (remove_alarm (PStr ''id-cpu-85'') (demo_state [cpu85, logs3] (Some stale) demo_log)))
       = [logs3]
   \<and> get_triggered_alarm (snd (remove_alarm (PStr ''id-cpu-85'')
                                  (demo_state [cpu85, logs3] (Some stale) demo_log))) = None
   \<and> remove_alarm (PStr ''id-unknown'') (demo_state [cpu85, logs3] (Some stale) demo_log)
       = (False, demo_state [cpu85, logs3] (Some stale) demo_log)
   \<and> remove_alarm (PInt 85) (demo_state [cpu85, logs3] (Some stale) demo_log)
       = (False, demo_state [cpu85, logs3] (Some stale) demo_log)"
proof -
  let ?s = "demo_state [cpu85, logs3] (Some stale) demo_log"
  have al: "alarms ?s = [cpu85, logs3]" and tr: "triggered_alarm ?s = Some stale"
    and wr: "alarms_write_error ?s = None"
    by (simp_all add: demo_state_def)
  have ids: "alarm_id cpu85 = ''id-cpu-85''" "alarm_id logs3 = ''id-logs-3''"
    by (simp_all add: demo demo_alarms)
  have sid: "alarm_id (rule stale) = ''id-cpu-85''"
    by (simp add: stale_def ids)
  have ex: "\<exists>a \<in> set (alarms ?s). PStr (alarm_id a) = PStr ''id-cpu-85''"
    by (simp add: al ids)
  have no1: "\<forall>a \<in> set (alarms ?s). PStr (alarm_id a) \<noteq> PStr ''id-unknown''"
    and no2: "\<forall>a \<in> set (alarms ?s). PStr (alarm_id a) \<noteq> PInt 85"
    by (simp_all add: al ids)
  note p = remove_alarm_effect[of ?s "PStr ''id-cpu-85''"]
  have r1: "fst (remove_alarm (PStr ''id-cpu-85'') ?s) = True"
    using p ex by blast
  have r2a: "alarms (snd (remove_alarm (PStr ''id-cpu-85'') ?s))
           = [a \<leftarrow> alarms ?s. PStr (alarm_id a) \<noteq> PStr ''id-cpu-85'']"
    using p ex by blast
  then have r2: "alarms (snd (remove_alarm (PStr ''id-cpu-85'') ?s)) = [logs3]"
    by (simp add: al ids)
  have "alarms_file (snd (remove_alarm (PStr ''id-cpu-85'') ?s))
           = alarms (snd (remove_alarm (PStr ''id-cpu-85'') ?s))"
    using p ex wr by blast
  then have r3: "alarms_file (snd (remove_alarm (PStr ''id-cpu-85'') ?s)) = [logs3]"
    using r2 by simp
  have "get_triggered_alarm (snd (remove_alarm (PStr ''id-cpu-85'') ?s))
           = (if PStr (alarm_id (rule stale)) = PStr ''id-cpu-85'' then None else Some stale)"
    using p ex tr by blast
  then have r4: "get_triggered_alarm (snd (remove_alarm (PStr ''id-cpu-85'') ?s)) = None"
    by (simp add: sid)
  have r5: "remove_alarm (PStr ''id-unknown'') ?s = (False, ?s)"
    using remove_alarm_effect[of ?s "PStr ''id-unknown''"] no1 by blast
  have r6: "remove_alarm (PInt 85) ?s = (False, ?s)"
    using remove_alarm_effect[of ?s "PInt 85"] no2 by blast
  have r0: "get_triggered_alarm ?s = Some stale"
    by (simp add: get_triggered_alarm_def tr)
  show ?thesis
    using ex sid r0 r1 r2 r3 r4 r5 r6 by blast
qed

section \<open>What get_alarms hands out\<close>

lemma deref_all_Some:
  "(\<forall>r \<in> set rs. dicts h r \<noteq> None) \<Longrightarrow> deref_all h rs = Some (map (\<lambda>r. the (dicts h r)) rs)"
  by (induction rs) auto

lemma deref_all_dom:
  "deref_all h rs = Some as \<Longrightarrow> (\<forall>r \<in> set rs. dicts h r \<noteq> None)"
  by (induction rs arbitrary: as) (auto split: option.splits)

lemma deref_all_map:
  "deref_all h rs = Some as \<longleftrightarrow> (\<forall>r \<in> set rs. dicts h r \<noteq> None) \<and> as = map (\<lambda>r. the (dicts h r)) rs"
  using deref_all_Some[of rs h] deref_all_dom[of h rs as] by auto

lemma deref_all_lists [simp]: "deref_all (h\<lparr>lists := m\<rparr>) rs = deref_all h rs"
  by (induction rs) (auto split: option.splits)

lemma deref_all_next [simp]: "deref_all (h\<lparr>next_ref := n\<rparr>) rs = deref_all h rs"
  by (induction rs) (auto split: option.splits)

lemma map_insort_key:
  "map g (insort_key (\<lambda>x. f (g x)) x xs) = insort_key f (g x) (map g xs)"
  by (induction xs) auto

lemma map_sort_key:
  "map g (sort_key (\<lambda>x. f (g x)) xs) = sort_key f (map g xs)"
  by (induction xs) (auto simp: map_insort_key)

lemma insort_key_agree:
  "f x = g x \<Longrightarrow> \<forall>y \<in> set xs. f y = g y \<Longrightarrow> insort_key f x xs = insort_key g x xs"
  by (induction xs) auto

lemma sort_key_agree:
  "\<forall>y \<in> set xs. f y = g y \<Longrightarrow> sort_key f xs = sort_key g xs"
proof (induction xs)
  case Nil
  then show ?case by simp
next
  case (Cons x xs)
  then have "sort_key f xs = sort_key g xs" by simp
  moreover have "insort_key f x (sort_key g xs) = insort_key g x (sort_key g xs)"
    using Cons.prems by (intro insort_key_agree) simp_all
  ultimately show ?case by simp
qed

lemma deref_all_sorted:
  assumes "deref_all h rs = Some as"
  shows "deref_all h (sort_key (ref_key h) rs)
         = Some (sort_key (\<lambda>a. (sort_order (resource a), num_val (threshold a))) as)"
proof -
  from assms have dom: "\<forall>r \<in> set rs. dicts h r \<noteq> None"
    and as: "as = map (\<lambda>r. the (dicts h r)) rs"
    by (simp_all add: deref_all_map)
  have key: "sort_key (ref_key h) rs
             = sort_key (\<lambda>r. (\<lambda>a. (sort_order (resource a), num_val (threshold a))) (the (dicts h r))) rs"
  proof (rule sort_key_agree, rule ballI)
    fix r assume "r \<in> set rs"
    then obtain a where "dicts h r = Some a" using dom by auto
    then show "ref_key h r = (\<lambda>a. (sort_order (resource a), num_val (threshold a))) (the (dicts h r))"
      by (simp add: ref_key_def)
  qed
  have "deref_all h (sort_key (ref_key h) rs)
        = Some (map (\<lambda>r. the (dicts h r)) (sort_key (ref_key h) rs))"
    using dom by (intro deref_all_Some) simp
  also have "map (\<lambda>r. the (dicts h r)) (sort_key (ref_key h) rs)
        = sort_key (\<lambda>a. (sort_order (resource a), num_val (threshold a))) as"
    unfolding key as by (rule map_sort_key)
  finally show ?thesis .
qed

lemma deref_all_mutated:
  assumes "deref_all h rs = Some as" and "d \<in> set rs" and "dicts h d = Some a" and "g a \<noteq> a"
  shows "deref_all (h\<lparr>dicts := (dicts h)(d \<mapsto> g a)\<rparr>) rs \<noteq> Some as"
proof
  assume m: "deref_all (h\<lparr>dicts := (dicts h)(d \<mapsto> g a)\<rparr>) rs = Some as"
  have "as = map (\<lambda>r. the (dicts h r)) rs"
    using assms(1) by (simp add: deref_all_map)
  moreover have "as = map (\<lambda>r. the (((dicts h)(d \<mapsto> g a)) r)) rs"
    using m by (simp add: deref_all_map)
  ultimately have "\<forall>r \<in> set rs. the (dicts h r) = the (((dicts h)(d \<mapsto> g a)) r)"
    by simp
  then have "the (dicts h d) = the (((dicts h)(d \<mapsto> g a)) d)"
    using assms(2) by blast
  then show False using assms(3,4) by simp
qed

lemma get_alarms_ref_Some:
  assumes "get_alarms_ref la h = Some (l, h')"
  obtains rs as where "lists h la = Some rs" "deref_all h rs = Some as" "l = next_ref h"
    "h' = h\<lparr>lists := (lists h)(next_ref h \<mapsto> sort_key (ref_key h) rs), next_ref := Suc (next_ref h)\<rparr>"
  using assms unfolding get_alarms_ref_def by (auto split: option.splits)

text \<open>
  C9, as claimed: no mutation of the value returned by \<^verbatim>\<open>get_alarms\<close>, of the list or of a
  rule record in it, changes the alarms of the store. It fails on the code for the records:
  \<^verbatim>\<open>sorted\<close> builds a new list of the same dictionaries. On the example heap the returned
  list holds the references 11 and 10 of the store; setting the threshold of the record at
  11 to 1 through the returned list changes the rule of threshold 70 in the store.
\<close>

theorem get_alarms_ref_sharing_counterexample:
  "(case get_alarms_ref 1 demo_heap of
      None \<Rightarrow> False
    | Some (l, h') \<Rightarrow>
        lists h' l = Some [11, 10]
        \<and> store_alarms 1 h' = Some [cpu85, cpu70]
        \<and> store_alarms 1 (mutate_dict 11 (\<lambda>a. a\<lparr>threshold := IntV 1\<rparr>) h')
            = Some [cpu85, cpu70\<lparr>threshold := IntV 1\<rparr>])
   \<and> threshold cpu70 = IntV 70"
  by (simp add: get_alarms_ref_def demo_heap_def ref_key_def sort_order_def store_alarms_def
      mutate_dict_def demo demo_alarms)

text \<open>
  C9, amended. \<^verbatim>\<open>get_alarms\<close> returns a new list object, in priority order, holding the
  store's own rule records. The call leaves the alarms of the store as they are; the list
  returned reads as the sorted alarms of the store; no change of the content of the returned
  list changes the alarms of the store; and changing a record of the returned list in place
  changes the alarms of the store.
\<close>

theorem get_alarms_ref_sharing:
  assumes "get_alarms_ref la h = Some (l, h')" and "la < next_ref h"
  shows "l \<noteq> la
       \<and> store_alarms la h' = store_alarms la h
       \<and> (\<exists>xs. store_alarms la h = Some xs \<and> store_alarms l h' = Some (get_alarms (st\<lparr>alarms := xs\<rparr>)))
       \<and> (\<forall>f. store_alarms la (mutate_list l f h') = store_alarms la h)
       \<and> (\<exists>rs'. lists h' l = Some rs'
             \<and> (\<forall>d \<in> set rs'. \<forall>a g. dicts h' d = Some a \<and> g a \<noteq> a \<longrightarrow>
                   store_alarms la (mutate_dict d g h') \<noteq> store_alarms la h))"
proof -
  from assms(1) obtain rs as where rs: "lists h la = Some rs" and as: "deref_all h rs = Some as"
    and l: "l = next_ref h"
    and h': "h' = h\<lparr>lists := (lists h)(next_ref h \<mapsto> sort_key (ref_key h) rs),
                    next_ref := Suc (next_ref h)\<rparr>"
    by (rule get_alarms_ref_Some)
  have ne: "l \<noteq> la" using assms(2) l by simp
  have la': "lists h' la = Some rs" using ne l rs by (simp add: h')
  have ll: "lists h' l = Some (sort_key (ref_key h) rs)" using l by (simp add: h')
  have d': "dicts h' = dicts h" by (simp add: h')
  have deref': "deref_all h' xs = deref_all h xs" for xs by (simp add: h')
  have old: "store_alarms la h = Some as" by (simp add: store_alarms_def rs as)
  have same: "store_alarms la h' = store_alarms la h"
    by (simp add: store_alarms_def la' rs deref')
  have copy: "store_alarms l h' = Some (get_alarms (st\<lparr>alarms := as\<rparr>))"
    by (simp add: store_alarms_def ll deref' deref_all_sorted[OF as] get_alarms_def)
  have lst: "store_alarms la (mutate_list l f h') = store_alarms la h" for f
  proof -
    have "mutate_list l f h' = h'\<lparr>lists := (lists h')(l \<mapsto> f (sort_key (ref_key h) rs))\<rparr>"
      by (simp add: mutate_list_def ll)
    then show ?thesis using ne la' by (simp add: store_alarms_def rs deref')
  qed
  have dct: "store_alarms la (mutate_dict d g h') \<noteq> store_alarms la h"
    if "d \<in> set (sort_key (ref_key h) rs)" "dicts h' d = Some a" "g a \<noteq> a" for d a g
  proof -
    have m: "mutate_dict d g h' = h'\<lparr>dicts := (dicts h')(d \<mapsto> g a)\<rparr>"
      by (simp add: mutate_dict_def that(2))
    have "deref_all (h'\<lparr>dicts := (dicts h')(d \<mapsto> g a)\<rparr>) rs \<noteq> Some as"
    proof (rule deref_all_mutated[of h' rs as d a g])
      show "deref_all h' rs = Some as" by (simp add: deref' as)
      show "d \<in> set rs" using that(1) by simp
      show "dicts h' d = Some a" by (rule that(2))
      show "g a \<noteq> a" by (rule that(3))
    qed
    then show ?thesis
      unfolding m old by (simp add: store_alarms_def la')
  qed
  show ?thesis
    using ne same old copy lst ll dct by blast
qed

theorem get_alarms_ref_sharing_witness:
  "1 < next_ref demo_heap
   \<and> store_alarms 1 demo_heap = Some [cpu85, cpu70]
   \<and> (case get_alarms_ref 1 demo_heap of
         None \<Rightarrow> False
       | Some (l, h') \<Rightarrow>
           l \<noteq> 1
           \<and> store_alarms l h' = Some [cpu70, cpu85]
           \<and> store_alarms 1 h' = Some [cpu85, cpu70]
           \<and> store_alarms 1 (mutate_list l (\<lambda>xs. []) h') = Some [cpu85, cpu70]
           \<and> store_alarms 1 (mutate_list l rev h') = Some [cpu85, cpu70])"
proof -
  have n: "1 < next_ref demo_heap" by (simp add: demo_heap_def)
  have old: "store_alarms 1 demo_heap = Some [cpu85, cpu70]"
    by (simp add: store_alarms_def demo_heap_def)
  obtain l h' where g: "get_alarms_ref 1 demo_heap = Some (l, h')"
    by (cases "get_alarms_ref 1 demo_heap") (auto simp: get_alarms_ref_def demo_heap_def)
  note th = get_alarms_ref_sharing[OF g n, of "demo_state [] None []"]
  have a: "l \<noteq> 1" using th by blast
  have b: "store_alarms 1 h' = Some [cpu85, cpu70]" using th old by simp
  have "\<exists>xs. store_alarms 1 demo_heap = Some xs
          \<and> store_alarms l h' = Some (get_alarms ((demo_state [] None [])\<lparr>alarms := xs\<rparr>))"
    using th by blast
  then have "store_alarms l h' = Some (get_alarms ((demo_state [] None [])\<lparr>alarms := [cpu85, cpu70]\<rparr>))"
    using old by simp
  moreover have "get_alarms ((demo_state [] None [])\<lparr>alarms := [cpu85, cpu70]\<rparr>) = [cpu70, cpu85]"
    by (simp add: get_alarms_def demo_state_def sort_order_def demo demo_alarms)
  ultimately have c: "store_alarms l h' = Some [cpu70, cpu85]" by simp
  have m: "\<forall>f. store_alarms 1 (mutate_list l f h') = store_alarms 1 demo_heap"
    using th by blast
  have d: "store_alarms 1 (mutate_list l (\<lambda>xs. []) h') = Some [cpu85, cpu70]"
    "store_alarms 1 (mutate_list l rev h') = Some [cpu85, cpu70]"
    using m old by simp_all
  show ?thesis
    unfolding g using n old a b c d by simp
qed

end
